theory Spec2Isabelle
  imports Complex_Main "HOL-Library.Sublist" "HOL-Library.AList" "HOL-Library.Product_Lexorder"
begin

section \<open>Errors\<close>

text \<open>
  The Python exceptions that the modelled code can raise. A function that can raise
  returns \<open>error + 'a\<close>, with \<open>Inl\<close> for the exception.
\<close>

datatype error = ValueError | KeyError | IndexError | OverflowError

section \<open>National Weather Service module (nws.py)\<close>

subsection \<open>Strings\<close>

text \<open>
  A Python \<open>str\<close> is modelled as a \<open>string\<close> whose characters are the code points below
  256. \<open>str_contains sub s\<close> is \<open>sub in s\<close>; \<open>str_split sep s\<close> is \<open>s.split(sep)\<close> for a
  non-empty separator: the occurrences are found from the left and do not overlap.
\<close>

fun str_contains :: "string \<Rightarrow> string \<Rightarrow> bool" where
  "str_contains sub [] = (sub = [])"
| "str_contains sub (c # cs) = (prefix sub (c # cs) \<or> str_contains sub cs)"

function str_split :: "string \<Rightarrow> string \<Rightarrow> string list" where
  "str_split sep [] = [[]]"
| "str_split sep (c # cs) =
     (if sep \<noteq> [] \<and> prefix sep (c # cs) then [] # str_split sep (drop (length sep - 1) cs)
      else (case str_split sep cs of [] \<Rightarrow> [[c]] | p # ps \<Rightarrow> (c # p) # ps))"
  by pat_completeness auto
termination
  by (relation "measure (\<lambda>(sep, s). length s)") auto

text \<open>
  \<open>letter.isdigit()\<close> is true of the ten ASCII digits and, among the code points below
  256, of the superscripts two, three and one (178, 179, 185); \<open>int(letter)\<close> raises
  ValueError on those three.
\<close>

definition isdigit :: "char \<Rightarrow> bool" where
  "isdigit c = (c \<in> set ''0123456789'' \<or> c = CHR 0xB2 \<or> c = CHR 0xB3 \<or> c = CHR 0xB9)"

definition int_of_letter :: "char \<Rightarrow> error + nat" where
  "int_of_letter c =
     (if c = CHR ''0'' then Inr 0 else if c = CHR ''1'' then Inr 1
      else if c = CHR ''2'' then Inr 2 else if c = CHR ''3'' then Inr 3
      else if c = CHR ''4'' then Inr 4 else if c = CHR ''5'' then Inr 5
      else if c = CHR ''6'' then Inr 6 else if c = CHR ''7'' then Inr 7
      else if c = CHR ''8'' then Inr 8 else if c = CHR ''9'' then Inr 9
      else Inl ValueError)"

subsection \<open>parse_interval\<close>

text \<open>
  The loop over the letters of the duration. \<open>hours\<close> and \<open>integer\<close> start at 0 and are
  only ever added to, multiplied and floor-divided by positive constants, so the Python
  integers are natural numbers.
\<close>

fun duration_loop :: "string \<Rightarrow> nat \<Rightarrow> nat \<Rightarrow> error + nat" where
  "duration_loop [] hours integer = Inr hours"
| "duration_loop (letter # rest) hours integer =
     (if isdigit letter then
        (case int_of_letter letter of
           Inl e \<Rightarrow> Inl e
         | Inr d \<Rightarrow> duration_loop rest hours (10 * integer + d))
      else if letter = CHR ''H'' then duration_loop rest (hours + integer) 0
      else if letter = CHR ''M'' then duration_loop rest (hours + integer div 60) 0
      else if letter = CHR ''S'' then duration_loop rest (hours + integer div 360) 0
      else duration_loop rest hours integer)"

text \<open>
  \<open>parser.parse\<close> of dateutil is a parameter \<open>parse\<close>: it returns a date or raises. The
  unpacking \<open>date, duration = interval.split(solidus)\<close> raises ValueError unless the split
  has exactly two parts. The date is parsed after the loop has run, as in the
  \<open>return\<close> statement.
\<close>

definition parse_interval :: "(string \<Rightarrow> error + 'd) \<Rightarrow> string \<Rightarrow> error + ('d \<times> nat)" where
  "parse_interval parse interval =
     (let solidus = (if str_contains ''/'' interval then Some ''/''
                     else if str_contains ''--'' interval then Some ''--'' else None)
      in case solidus of
           None \<Rightarrow> (case parse interval of Inl e \<Rightarrow> Inl e | Inr d \<Rightarrow> Inr (d, 0))
         | Some sep \<Rightarrow>
             (case str_split sep interval of
                [date, duration] \<Rightarrow>
                  (case duration_loop duration 0 0 of
                     Inl e \<Rightarrow> Inl e
                   | Inr hours \<Rightarrow>
                       (case parse date of Inl e \<Rightarrow> Inl e | Inr d \<Rightarrow> Inr (d, hours)))
              | _ \<Rightarrow> Inl ValueError))"

text \<open>
  The format \<open>PTnHnMnS\<close> as the specification describes it: a list of components, each a
  number and a unit letter, written in decimal after the letters \<open>PT\<close>. Its duration in
  hours, in the specification's words: the H values, each M value floor-divided by 60,
  each S value floor-divided by 360, summed.
\<close>

datatype unit_letter = H | M | S

fun unit_char :: "unit_letter \<Rightarrow> char" where
  "unit_char H = CHR ''H''"
| "unit_char M = CHR ''M''"
| "unit_char S = CHR ''S''"

definition digit_char :: "nat \<Rightarrow> char" where
  "digit_char d = ''0123456789'' ! d"

fun decimal :: "nat \<Rightarrow> string" where
  "decimal n = (if n < 10 then [digit_char n] else decimal (n div 10) @ [digit_char (n mod 10)])"

declare decimal.simps [simp del]

fun render_components :: "(nat \<times> unit_letter) list \<Rightarrow> string" where
  "render_components [] = []"
| "render_components ((n, u) # cs) = decimal n @ unit_char u # render_components cs"

definition render_duration :: "(nat \<times> unit_letter) list \<Rightarrow> string" where
  "render_duration cs = ''PT'' @ render_components cs"

fun spec_hours_of :: "nat \<times> unit_letter \<Rightarrow> nat" where
  "spec_hours_of (n, H) = n"
| "spec_hours_of (n, M) = n div 60"
| "spec_hours_of (n, S) = n div 360"

definition spec_duration_hours :: "(nat \<times> unit_letter) list \<Rightarrow> nat" where
  "spec_duration_hours cs = sum_list (map spec_hours_of cs)"

subsection \<open>Dates\<close>

text \<open>
  A \<open>datetime.datetime\<close> with its fields. The time zone is carried unchanged by
  \<open>replace\<close> and by the addition of a \<open>timedelta\<close>, and is left out: all the timestamps of
  one response carry the same offset.
\<close>

record datetime =
  year :: int
  month :: int
  day :: int
  hour :: int
  minute :: int
  second :: int
  microsecond :: int

definition is_leap :: "int \<Rightarrow> bool" where
  "is_leap y = (y mod 4 = 0 \<and> (y mod 100 \<noteq> 0 \<or> y mod 400 = 0))"

definition days_in_month :: "int \<Rightarrow> int \<Rightarrow> int" where
  "days_in_month y m =
     (if m = 2 then (if is_leap y then 29 else 28)
      else if m = 4 \<or> m = 6 \<or> m = 9 \<or> m = 11 then 30 else 31)"

text \<open>The field checks that the constructor of \<open>datetime\<close> makes.\<close>

definition valid_datetime :: "datetime \<Rightarrow> bool" where
  "valid_datetime d =
     (1 \<le> year d \<and> year d \<le> 9999 \<and> 1 \<le> month d \<and> month d \<le> 12
      \<and> 1 \<le> day d \<and> day d \<le> days_in_month (year d) (month d)
      \<and> 0 \<le> hour d \<and> hour d \<le> 23 \<and> 0 \<le> minute d \<and> minute d \<le> 59
      \<and> 0 \<le> second d \<and> second d \<le> 59 \<and> 0 \<le> microsecond d \<and> microsecond d \<le> 999999)"

text \<open>
  \<open>date.replace(hour=h, minute=m, second=s)\<close> builds a new datetime from the old fields
  and the three given ones, and raises ValueError when a field is out of range. The
  microsecond is not among the replaced fields.
\<close>

definition replace_hms :: "datetime \<Rightarrow> int \<Rightarrow> int \<Rightarrow> int \<Rightarrow> error + datetime" where
  "replace_hms d h m s =
     (let d' = d\<lparr>hour := h, minute := m, second := s\<rparr>
      in if valid_datetime d' then Inr d' else Inl ValueError)"

definition round_to_nearest_hour :: "datetime \<Rightarrow> error + datetime" where
  "round_to_nearest_hour date =
     (if minute date \<ge> 30 then replace_hms date (hour date + 1) 0 0
      else replace_hms date (hour date) 0 0)"

text \<open>
  \<open>time + timedelta(hours=n)\<close>: the calendar is advanced hour by hour; a result after
  the year 9999 raises OverflowError.
\<close>

definition next_hour :: "datetime \<Rightarrow> error + datetime" where
  "next_hour d =
     (if hour d < 23 then Inr (d\<lparr>hour := hour d + 1\<rparr>)
      else if day d < days_in_month (year d) (month d) then Inr (d\<lparr>day := day d + 1, hour := 0\<rparr>)
      else if month d < 12 then Inr (d\<lparr>month := month d + 1, day := 1, hour := 0\<rparr>)
      else if year d < 9999 then Inr (d\<lparr>year := year d + 1, month := 1, day := 1, hour := 0\<rparr>)
      else Inl OverflowError)"

fun add_hours :: "datetime \<Rightarrow> nat \<Rightarrow> error + datetime" where
  "add_hours d 0 = Inr d"
| "add_hours d (Suc n) = (case add_hours d n of Inl e \<Rightarrow> Inl e | Inr d' \<Rightarrow> next_hour d')"

subsection \<open>The table under construction\<close>

text \<open>
  \<open>model_data\<close> is a \<open>defaultdict\<close> from a time to a list of cells, one per label; a
  dictionary keeps its keys in the order of their first insertion, so it is an
  association list. A cell is \<open>None\<close> for \<open>nan\<close> (and for the \<open>null\<close> of a response, which
  the data frame treats alike). \<open>get_row w md k\<close> is the row that \<open>md[k]\<close> gives: for a
  missing key a new row of \<open>w\<close> cells \<open>nan\<close>. \<open>set_cell w md k i v\<close> is \<open>md[k][i] = v\<close>: the
  new row of a missing key is stored at the end, and an index outside the row raises
  IndexError.
\<close>

definition get_row :: "nat \<Rightarrow> ('k \<times> 'v option list) list \<Rightarrow> 'k \<Rightarrow> 'v option list" where
  "get_row w md k = (case map_of md k of None \<Rightarrow> replicate w None | Some row \<Rightarrow> row)"

definition set_cell ::
  "nat \<Rightarrow> ('k \<times> 'v option list) list \<Rightarrow> 'k \<Rightarrow> nat \<Rightarrow> 'v option
     \<Rightarrow> error + ('k \<times> 'v option list) list" where
  "set_cell w md k i v =
     (let row = get_row w md k
      in if i < length row then Inr (AList.update k (row[i := v]) md) else Inl IndexError)"

subsection \<open>get_model_nws_data\<close>

text \<open>
  The inner loop \<open>for hour in range(0, duration)\<close> of one sample, with the rounded time,
  the index of the label and the value.
\<close>

fun expand_hours ::
  "(datetime \<times> 'v option list) list \<Rightarrow> datetime \<Rightarrow> nat \<Rightarrow> 'v option \<Rightarrow> nat list
     \<Rightarrow> error + (datetime \<times> 'v option list) list" where
  "expand_hours md time label_idx val [] = Inr md"
| "expand_hours md time label_idx val (h # hs) =
     (case add_hours time h of
        Inl e \<Rightarrow> Inl e
      | Inr k \<Rightarrow>
          (case set_cell 5 md k label_idx val of
             Inl e \<Rightarrow> Inl e
           | Inr md' \<Rightarrow> expand_hours md' time label_idx val hs))"

definition expand_sample ::
  "(datetime \<times> 'v option list) list \<Rightarrow> datetime \<Rightarrow> nat \<Rightarrow> 'v option \<Rightarrow> nat
     \<Rightarrow> error + (datetime \<times> 'v option list) list" where
  "expand_sample md time label_idx val duration =
     expand_hours md time label_idx val [0..<duration]"

text \<open>The body of the loop over the samples of one label.\<close>

definition store_sample ::
  "(string \<Rightarrow> error + datetime) \<Rightarrow> (datetime \<times> 'v option list) list \<Rightarrow> nat \<Rightarrow> string \<times> 'v option
     \<Rightarrow> error + (datetime \<times> 'v option list) list" where
  "store_sample parse md label_idx sample =
     (case parse_interval parse (fst sample) of
        Inl e \<Rightarrow> Inl e
      | Inr (time, duration) \<Rightarrow>
          (case round_to_nearest_hour time of
             Inl e \<Rightarrow> Inl e
           | Inr time' \<Rightarrow> expand_sample md time' label_idx (snd sample) duration))"

fun store_samples ::
  "(string \<Rightarrow> error + datetime) \<Rightarrow> (datetime \<times> 'v option list) list \<Rightarrow> nat \<Rightarrow> (string \<times> 'v option) list
     \<Rightarrow> error + (datetime \<times> 'v option list) list" where
  "store_samples parse md label_idx [] = Inr md"
| "store_samples parse md label_idx (sample # rest) =
     (case store_sample parse md label_idx sample of
        Inl e \<Rightarrow> Inl e
      | Inr md' \<Rightarrow> store_samples parse md' label_idx rest)"

definition labels :: "string list" where
  "labels = [''windDirection'', ''windSpeed'', ''temperature'', ''skyCover'', ''relativeHumidity'']"

text \<open>
  The loop over the labels. The response is the map from a label to its list of
  samples (\<open>data['properties'][label]['values']\<close>), each a pair of \<open>validTime\<close> and
  \<open>value\<close>; a missing label raises KeyError. The result is the list of rows of the
  data frame: the time and the five cells.
\<close>

fun store_labels ::
  "(string \<Rightarrow> error + datetime) \<Rightarrow> (string \<rightharpoonup> (string \<times> 'v option) list) \<Rightarrow> (datetime \<times> 'v option list) list
     \<Rightarrow> (nat \<times> string) list \<Rightarrow> error + (datetime \<times> 'v option list) list" where
  "store_labels parse data md [] = Inr md"
| "store_labels parse data md ((label_idx, label_name) # rest) =
     (case data label_name of
        None \<Rightarrow> Inl KeyError
      | Some samples \<Rightarrow>
          (case store_samples parse md label_idx samples of
             Inl e \<Rightarrow> Inl e
           | Inr md' \<Rightarrow> store_labels parse data md' rest))"

definition get_model_nws_data ::
  "(string \<Rightarrow> error + datetime) \<Rightarrow> (string \<rightharpoonup> (string \<times> 'v option) list)
     \<Rightarrow> error + (datetime \<times> 'v option list) list" where
  "get_model_nws_data parse data = store_labels parse data [] (enumerate 0 labels)"

text \<open>
  The invariant of the table: every row has \<open>w\<close> cells. The rank of a datetime orders
  the hours of the calendar.
\<close>

definition rows_width :: "nat \<Rightarrow> ('k \<times> 'v option list) list \<Rightarrow> bool" where
  "rows_width w md = list_all (\<lambda>kr. length (snd kr) = w) md"

definition hour_rank :: "datetime \<Rightarrow> int \<times> int \<times> int \<times> int" where
  "hour_rank d = (year d, month d, day d, hour d)"

section \<open>Lake Tahoe station module (aws.py)\<close>

subsection \<open>Cells, series and data frames\<close>

text \<open>
  A float is a real number or \<open>nan\<close>: a cell is \<open>None\<close> for \<open>nan\<close> (and for \<open>NaT\<close> in the
  time column, whose timestamps are numbers here). Rounding and the infinities of the
  floats are left out. Arithmetic gives \<open>nan\<close> when an operand is \<open>nan\<close>, an ordering
  comparison with \<open>nan\<close> is false, and \<open>nan != y\<close> is true.
\<close>

type_synonym cell = "real option"

definition cell_binop :: "(real \<Rightarrow> real \<Rightarrow> real) \<Rightarrow> cell \<Rightarrow> cell \<Rightarrow> cell" where
  "cell_binop f a b =
     (case a of None \<Rightarrow> None | Some x \<Rightarrow> (case b of None \<Rightarrow> None | Some y \<Rightarrow> Some (f x y)))"

definition cell_lt :: "cell \<Rightarrow> cell \<Rightarrow> bool" where
  "cell_lt a b =
     (case a of None \<Rightarrow> False | Some x \<Rightarrow> (case b of None \<Rightarrow> False | Some y \<Rightarrow> x < y))"

definition cell_ne :: "cell \<Rightarrow> real \<Rightarrow> bool" where
  "cell_ne a y = (case a of None \<Rightarrow> True | Some x \<Rightarrow> x \<noteq> y)"

text \<open>
  A \<open>pandas.Series\<close> whose index is \<open>0, \<dots>, n-1\<close> is the list of its cells, and a
  \<open>DataFrame\<close> is the list of its named columns, in the order of \<open>df.columns\<close>, the column
  \<open>time\<close> among them. \<open>df[f]\<close> raises KeyError for a missing column; \<open>df[f] = s\<close> replaces
  the column \<open>f\<close> or adds it at the end.
\<close>

type_synonym series = "cell list"

type_synonym dataframe = "(string \<times> series) list"

definition getitem :: "dataframe \<Rightarrow> string \<Rightarrow> error + series" where
  "getitem df f = (case map_of df f of None \<Rightarrow> Inl KeyError | Some x \<Rightarrow> Inr x)"

definition setitem :: "dataframe \<Rightarrow> string \<Rightarrow> series \<Rightarrow> dataframe" where
  "setitem df f x = AList.update f x df"

text \<open>
  Two series are combined index by index; an index that one of them lacks gives \<open>nan\<close>.
  A comparison of two series raises ValueError unless they have the same index.
  \<open>x.where(cond, other)\<close> keeps the cell of \<open>x\<close> where \<open>cond\<close> holds and takes the cell of
  \<open>other\<close> elsewhere; it is only reached with three series of one length.
\<close>

definition series_binop :: "(real \<Rightarrow> real \<Rightarrow> real) \<Rightarrow> series \<Rightarrow> series \<Rightarrow> series" where
  "series_binop f a b =
     map (\<lambda>i. if i < length a \<and> i < length b then cell_binop f (a ! i) (b ! i) else None)
       [0..<max (length a) (length b)]"

definition series_scale :: "real \<Rightarrow> series \<Rightarrow> series" where
  "series_scale c a = map (map_option (\<lambda>x. c * x)) a"

definition series_lt :: "series \<Rightarrow> series \<Rightarrow> error + bool list" where
  "series_lt a b =
     (if length a = length b then Inr (map (\<lambda>(x, y). cell_lt x y) (zip a b)) else Inl ValueError)"

definition series_ne :: "series \<Rightarrow> real \<Rightarrow> bool list" where
  "series_ne a y = map (\<lambda>x. cell_ne x y) a"

definition series_where :: "series \<Rightarrow> bool list \<Rightarrow> series \<Rightarrow> series" where
  "series_where x cond other =
     map (\<lambda>(v, c, other_v). if c then v else other_v) (zip x (zip cond other))"

text \<open>
  \<open>s[0] = v\<close> on a series: the label 0 is the first position; on an empty series the
  label is missing and the assignment adds it, giving a series of one cell.
\<close>

definition setitem0 :: "series \<Rightarrow> cell \<Rightarrow> series" where
  "setitem0 s v = (if s = [] then [v] else s[0 := v])"

subsection \<open>Rolling windows\<close>

text \<open>
  \<open>x.rolling(window=w, center=True, min_periods=1)\<close>: the window of position \<open>i\<close> ends
  before \<open>i + 1 + (w - 1) div 2\<close> and starts \<open>w\<close> positions earlier, both clipped to the
  series; its \<open>nan\<close> cells are skipped, and a window with no value gives \<open>nan\<close>. The standard
  deviation is the sample one (divisor \<open>n - 1\<close>), \<open>nan\<close> for a single value; the median of
  an even number of values is the mean of the two middle ones.
\<close>

definition window :: "nat \<Rightarrow> series \<Rightarrow> nat \<Rightarrow> real list" where
  "window w x i =
     (let offset = (w - 1) div 2;
          stop = min (i + 1 + offset) (length x);
          start = i + 1 + offset - w
      in List.map_filter (\<lambda>c. c) (take (stop - start) (drop start x)))"

definition rolling :: "nat \<Rightarrow> (real list \<Rightarrow> cell) \<Rightarrow> series \<Rightarrow> series" where
  "rolling w f x =
     map (\<lambda>i. let vs = window w x i in if 1 \<le> length vs then f vs else None) [0..<length x]"

definition mean :: "real list \<Rightarrow> real" where
  "mean vs = sum_list vs / real (length vs)"

definition roll_mean :: "real list \<Rightarrow> cell" where
  "roll_mean vs = Some (mean vs)"

definition roll_std :: "real list \<Rightarrow> cell" where
  "roll_std vs =
     (if 1 < length vs
      then Some (sqrt (sum_list (map (\<lambda>v. (v - mean vs)\<^sup>2) vs) / real (length vs - 1)))
      else None)"

definition roll_median :: "real list \<Rightarrow> cell" where
  "roll_median vs =
     (let s = sort vs; n = length s
      in if odd n then Some (s ! (n div 2)) else Some ((s ! (n div 2 - 1) + s ! (n div 2)) / 2))"

subsection \<open>remove_outliers\<close>

text \<open>
  A \<open>for\<close> loop over a list that updates the data frame and stops at the first exception.
  \<open>column_op g f\<close> reads the column \<open>f\<close>, applies \<open>g\<close> and stores the result in the column:
  the statements of the cleaner that read \<open>df[feature]\<close> and assign to it or change it in
  place (\<open>where(\<dots>, inplace=True)\<close> on \<open>df[feature]\<close> writes through to the frame).
\<close>

fun for_each :: "('a \<Rightarrow> 's \<Rightarrow> error + 's) \<Rightarrow> 'a list \<Rightarrow> 's \<Rightarrow> error + 's" where
  "for_each body [] s = Inr s"
| "for_each body (a # as) s =
     (case body a s of Inl e \<Rightarrow> Inl e | Inr s' \<Rightarrow> for_each body as s')"

definition column_op :: "(series \<Rightarrow> error + series) \<Rightarrow> string \<Rightarrow> dataframe \<Rightarrow> error + dataframe" where
  "column_op g f df =
     (case getitem df f of
        Inl e \<Rightarrow> Inl e
      | Inr x \<Rightarrow> (case g x of Inl e \<Rightarrow> Inl e | Inr y \<Rightarrow> Inr (setitem df f y)))"

definition median_filter :: "series \<Rightarrow> error + series" where
  "median_filter x = Inr (rolling 5 roll_median x)"

definition median_body :: "string \<Rightarrow> dataframe \<Rightarrow> error + dataframe" where
  "median_body feature df =
     (if feature = ''time'' then Inr df else column_op median_filter feature df)"

definition median_filtering :: "dataframe \<Rightarrow> error + dataframe" where
  "median_filtering df = for_each median_body (map fst df) df"

definition ATTR_BOUNDS :: "(string \<times> real \<times> real) list" where
  "ATTR_BOUNDS =
     [(''relative humidity'', 0, 1),
      (''shortwave'', - (1 / 1000), 1300),
      (''longwave'', 50, 450),
      (''atmospheric pressure'', 75000, 90000),
      (''air temp'', - 20, 70),
      (''wind speed'', 0, 40),
      (''wind direction'', 0, 360)]"

text \<open>\<open>np.clip(x, lo, hi)\<close> is \<open>minimum(maximum(x, lo), hi)\<close>, and keeps \<open>nan\<close>.\<close>

definition clip :: "real \<Rightarrow> real \<Rightarrow> series \<Rightarrow> error + series" where
  "clip lo hi x = Inr (map (map_option (\<lambda>v. min (max v lo) hi)) x)"

definition clip_body :: "string \<times> real \<times> real \<Rightarrow> dataframe \<Rightarrow> error + dataframe" where
  "clip_body b df = (case b of (feature, lo, hi) \<Rightarrow> column_op (clip lo hi) feature df)"

definition clip_stage :: "dataframe \<Rightarrow> error + dataframe" where
  "clip_stage df = for_each clip_body ATTR_BOUNDS df"

text \<open>
  The third stage on one column: the rolling mean and standard deviation, \<open>std[0] = 0\<close>,
  the two bands, and the two replacements in sequence, the second on the column as the
  first left it.
\<close>

definition sigma_repair :: "series \<Rightarrow> error + series" where
  "sigma_repair x =
     (let mean = rolling 100 roll_mean x;
          std = setitem0 (rolling 100 roll_std x) (Some 0);
          lo = series_binop (\<lambda>a b. a - b) mean (series_scale 3 std);
          hi = series_binop (\<lambda>a b. a + b) mean (series_scale 3 std)
      in case series_lt lo x of
           Inl e \<Rightarrow> Inl e
         | Inr c1 \<Rightarrow>
             (let x1 = series_where x c1 mean
              in case series_lt x1 hi of
                   Inl e \<Rightarrow> Inl e
                 | Inr c2 \<Rightarrow> Inr (series_where x1 c2 mean)))"

definition sigma_body :: "string \<Rightarrow> dataframe \<Rightarrow> error + dataframe" where
  "sigma_body feature df =
     (if feature = ''time'' then Inr df else column_op sigma_repair feature df)"

definition sigma_stage :: "dataframe \<Rightarrow> error + dataframe" where
  "sigma_stage df = for_each sigma_body (map fst df) df"

text \<open>The fourth stage on one column: first the cells at \<open>hi\<close>, then the cells at \<open>lo\<close>.\<close>

definition stuck_repair :: "real \<Rightarrow> real \<Rightarrow> series \<Rightarrow> error + series" where
  "stuck_repair lo hi x =
     (let mean = rolling 100 roll_mean x;
          x1 = series_where x (series_ne x hi) mean
      in Inr (series_where x1 (series_ne x1 lo) mean))"

definition stuck_body :: "string \<times> real \<times> real \<Rightarrow> dataframe \<Rightarrow> error + dataframe" where
  "stuck_body b df =
     (case b of (feature, lo, hi) \<Rightarrow>
        if feature = ''shortwave'' then Inr df else column_op (stuck_repair lo hi) feature df)"

definition stuck_stage :: "dataframe \<Rightarrow> error + dataframe" where
  "stuck_stage df = for_each stuck_body ATTR_BOUNDS df"

definition remove_outliers :: "dataframe \<Rightarrow> error + dataframe" where
  "remove_outliers df =
     (case median_filtering df of Inl e \<Rightarrow> Inl e | Inr df1 \<Rightarrow>
      case clip_stage df1 of Inl e \<Rightarrow> Inl e | Inr df2 \<Rightarrow>
      case sigma_stage df2 of Inl e \<Rightarrow> Inl e | Inr df3 \<Rightarrow>
      case stuck_stage df3 of Inl e \<Rightarrow> Inl e | Inr df4 \<Rightarrow>
      median_filtering df4)"

subsection \<open>get_model_historical_data\<close>

text \<open>
  The two responses are the parameters: lists of samples whose fields have been through
  \<open>parse_date\<close> and \<open>float\<close> (a timestamp is a number, a raw value a cell, \<open>nan\<close> included).
\<close>

record sample =
  TmStamp :: real

record buoy_sample = sample +
  AirTemp_1 :: cell
  AirTemp_2 :: cell
  WindDir_1 :: cell
  WindDir_2 :: cell
  WindSpeed_1 :: cell
  WindSpeed_2 :: cell

record uscg_sample = sample +
  ShortWaveIn_wm2 :: cell
  ShortWaveOut_wm2 :: cell
  BP_mbar :: cell
  RH_percent :: cell
  LongWaveInCorr_wm2 :: cell

definition features :: "string list" where
  "features = [''shortwave'', ''air temp'', ''atmospheric pressure'', ''relative humidity'',
     ''longwave'', ''wind speed'', ''wind direction'']"

text \<open>\<open>xs.index(x)\<close>, for an \<open>x\<close> that is in the list, as every name used below is.\<close>

definition index :: "'a list \<Rightarrow> 'a \<Rightarrow> nat" where
  "index xs x = length (takeWhile (\<lambda>y. y \<noteq> x) xs)"

definition scalar_div :: "cell \<Rightarrow> real \<Rightarrow> cell" where
  "scalar_div a c = map_option (\<lambda>x. x / c) a"

definition scalar_mul :: "cell \<Rightarrow> real \<Rightarrow> cell" where
  "scalar_mul a c = map_option (\<lambda>x. x * c) a"

text \<open>The three assignments into \<open>historical[time]\<close> of a sample, in sequence.\<close>

definition set_cells ::
  "(real \<times> cell list) list \<Rightarrow> real \<Rightarrow> (nat \<times> cell) list \<Rightarrow> error + (real \<times> cell list) list" where
  "set_cells historical time ivs =
     for_each (\<lambda>iv h. set_cell (length features) h time (fst iv) (snd iv)) ivs historical"

definition buoy_body :: "buoy_sample \<Rightarrow> (real \<times> cell list) list \<Rightarrow> error + (real \<times> cell list) list" where
  "buoy_body data_sample historical =
     (let time = TmStamp data_sample;
          wind_dir = scalar_div (cell_binop (\<lambda>a b. a + b) (WindDir_1 data_sample) (WindDir_2 data_sample)) 2;
          wind_speed = scalar_div (cell_binop (\<lambda>a b. a + b) (WindSpeed_1 data_sample) (WindSpeed_2 data_sample)) 2;
          air_temp = scalar_div (cell_binop (\<lambda>a b. a + b) (AirTemp_1 data_sample) (AirTemp_2 data_sample)) 2
      in set_cells historical time
           [(index features ''air temp'', air_temp),
            (index features ''wind speed'', wind_speed),
            (index features ''wind direction'', wind_dir)])"

definition uscg_body :: "uscg_sample \<Rightarrow> (real \<times> cell list) list \<Rightarrow> error + (real \<times> cell list) list" where
  "uscg_body data_sample historical =
     (let time = TmStamp data_sample;
          shortwave = cell_binop (\<lambda>a b. a - b) (ShortWaveIn_wm2 data_sample) (ShortWaveOut_wm2 data_sample);
          atmospheric_pressure = scalar_mul (BP_mbar data_sample) 100;
          relative_humidity = scalar_div (RH_percent data_sample) 100;
          longwave = LongWaveInCorr_wm2 data_sample
      in set_cells historical time
           [(index features ''shortwave'', shortwave),
            (index features ''atmospheric pressure'', atmospheric_pressure),
            (index features ''relative humidity'', relative_humidity),
            (index features ''longwave'', longwave)])"

definition merge_streams ::
  "buoy_sample list \<Rightarrow> uscg_sample list \<Rightarrow> error + (real \<times> cell list) list" where
  "merge_streams buoy_json uscg_json =
     (case for_each buoy_body buoy_json [] of
        Inl e \<Rightarrow> Inl e
      | Inr historical \<Rightarrow> for_each uscg_body uscg_json historical)"

text \<open>The data frame of the rows \<open>[time] + features\<close>, column by column.\<close>

definition to_dataframe :: "(real \<times> cell list) list \<Rightarrow> dataframe" where
  "to_dataframe historical =
     (''time'', map (\<lambda>r. Some (fst r)) historical)
     # map (\<lambda>j. (features ! j, map (\<lambda>r. snd r ! j) historical)) [0..<length features]"

text \<open>
  The trim: the positions of the rows with a null cell, and the frame without them.
  The positions are the labels that \<open>drop\<close> takes, the index being \<open>0, \<dots>, n-1\<close> at both
  trims.
\<close>

definition nrows :: "dataframe \<Rightarrow> nat" where
  "nrows df = (case df of [] \<Rightarrow> 0 | c # _ \<Rightarrow> length (snd c))"

definition row :: "dataframe \<Rightarrow> nat \<Rightarrow> cell list" where
  "row df i = map (\<lambda>c. snd c ! i) df"

definition rows :: "dataframe \<Rightarrow> cell list list" where
  "rows df = map (row df) [0..<nrows df]"

definition rows_with_nan :: "dataframe \<Rightarrow> nat list" where
  "rows_with_nan df = filter (\<lambda>idx. list_ex (\<lambda>c. snd c ! idx = None) df) [0..<nrows df]"

definition take_rows :: "nat list \<Rightarrow> dataframe \<Rightarrow> dataframe" where
  "take_rows idxs df = map (\<lambda>c. (fst c, map (\<lambda>i. snd c ! i) idxs)) df"

definition drop_rows :: "dataframe \<Rightarrow> nat list \<Rightarrow> dataframe" where
  "drop_rows df idxs = take_rows (filter (\<lambda>i. i \<notin> set idxs) [0..<nrows df]) df"

definition trim_nan :: "dataframe \<Rightarrow> dataframe" where
  "trim_nan df = drop_rows df (rows_with_nan df)"

text \<open>
  \<open>df.sort_values(by=['time'], ignore_index=True)\<close>: the rows in ascending order of their
  time, a null time last.
\<close>

definition time_key :: "cell \<Rightarrow> bool \<times> real" where
  "time_key c = (case c of None \<Rightarrow> (True, 0) | Some t \<Rightarrow> (False, t))"

definition sort_values_time :: "dataframe \<Rightarrow> error + dataframe" where
  "sort_values_time df =
     (case getitem df ''time'' of
        Inl e \<Rightarrow> Inl e
      | Inr t \<Rightarrow> Inr (take_rows (sort_key (\<lambda>i. time_key (t ! i)) [0..<length t]) df))"

text \<open>
  The decomposition of the wind: \<open>sin(radians(direction)) * -1 * speed\<close> and the same with
  \<open>cos\<close>, then the two columns dropped.
\<close>

definition radians :: "real \<Rightarrow> real" where
  "radians x = x * pi / 180"

definition drop_column :: "dataframe \<Rightarrow> string \<Rightarrow> error + dataframe" where
  "drop_column df f = (if f \<in> fst ` set df then Inr (AList.delete f df) else Inl KeyError)"

definition wind_component :: "(real \<Rightarrow> real) \<Rightarrow> dataframe \<Rightarrow> error + series" where
  "wind_component trig df =
     (case getitem df ''wind direction'' of
        Inl e \<Rightarrow> Inl e
      | Inr direction \<Rightarrow>
          (case getitem df ''wind speed'' of
             Inl e \<Rightarrow> Inl e
           | Inr speed \<Rightarrow>
               Inr (series_binop (\<lambda>a b. a * b)
                      (map (map_option (\<lambda>d. trig (radians d) * - 1)) direction) speed)))"

definition decompose_wind :: "dataframe \<Rightarrow> error + dataframe" where
  "decompose_wind df =
     (case wind_component sin df of Inl e \<Rightarrow> Inl e | Inr u \<Rightarrow>
      let df1 = setitem df ''wind u'' u in
      case wind_component cos df1 of Inl e \<Rightarrow> Inl e | Inr v \<Rightarrow>
      let df2 = setitem df1 ''wind v'' v in
      case drop_column df2 ''wind direction'' of Inl e \<Rightarrow> Inl e | Inr df3 \<Rightarrow>
      drop_column df3 ''wind speed'')"

definition get_model_historical_data ::
  "buoy_sample list \<Rightarrow> uscg_sample list \<Rightarrow> error + dataframe" where
  "get_model_historical_data buoy_json uscg_json =
     (case merge_streams buoy_json uscg_json of Inl e \<Rightarrow> Inl e | Inr historical \<Rightarrow>
      case sort_values_time (trim_nan (to_dataframe historical)) of Inl e \<Rightarrow> Inl e | Inr df \<Rightarrow>
      case remove_outliers df of Inl e \<Rightarrow> Inl e | Inr df1 \<Rightarrow>
      case decompose_wind df1 of Inl e \<Rightarrow> Inl e | Inr df2 \<Rightarrow>
      Inr (trim_nan df2))"

text \<open>The arithmetic mean of two raw values, \<open>nan\<close> when one of them is.\<close>

definition mean_of_two :: "cell \<Rightarrow> cell \<Rightarrow> cell" where
  "mean_of_two a b =
     (case a of None \<Rightarrow> None | Some x \<Rightarrow> (case b of None \<Rightarrow> None | Some y \<Rightarrow> Some ((x + y) / 2)))"

text \<open>
  The band of the third stage at a position, in the specification's words: the centered
  rolling mean and standard deviation (window 100, at least one sample), the standard
  deviation of the first sample forced to 0, and the bounds \<open>mean - 3 std\<close> and
  \<open>mean + 3 std\<close>.
\<close>

definition sigma_mean :: "series \<Rightarrow> nat \<Rightarrow> cell" where
  "sigma_mean x i = rolling 100 roll_mean x ! i"

definition sigma_std :: "series \<Rightarrow> nat \<Rightarrow> cell" where
  "sigma_std x i = (if i = 0 then Some 0 else rolling 100 roll_std x ! i)"

definition band_lo :: "series \<Rightarrow> nat \<Rightarrow> cell" where
  "band_lo x i = cell_binop (\<lambda>m s. m - 3 * s) (sigma_mean x i) (sigma_std x i)"

definition band_hi :: "series \<Rightarrow> nat \<Rightarrow> cell" where
  "band_hi x i = cell_binop (\<lambda>m s. m + 3 * s) (sigma_mean x i) (sigma_std x i)"

text \<open>
  Two frames with the same column names, the same column \<open>time\<close> and columns of the same
  lengths; and the frames that the cleaner accepts: distinct column names, the features
  of \<open>ATTR_BOUNDS\<close> among them, and no empty feature column.
\<close>

definition same_frame :: "dataframe \<Rightarrow> dataframe \<Rightarrow> bool" where
  "same_frame df df' =
     (map fst df' = map fst df \<and> map_of df' ''time'' = map_of df ''time''
      \<and> map (\<lambda>c. length (snd c)) df' = map (\<lambda>c. length (snd c)) df)"

definition cleanable :: "dataframe \<Rightarrow> bool" where
  "cleanable df =
     (distinct (map fst df) \<and> list_all (\<lambda>b. fst b \<in> fst ` set df) ATTR_BOUNDS
      \<and> list_all (\<lambda>c. fst c = ''time'' \<or> snd c \<noteq> []) df)"

section \<open>Properties of the National Weather Service module\<close>

subsection \<open>Rounding\<close>

lemma round_to_nearest_hour_in_range:
  assumes "valid_datetime d" and "minute d < 30 \<or> hour d < 23"
  shows "round_to_nearest_hour d =
           Inr (d\<lparr>hour := (if minute d \<ge> 30 then hour d + 1 else hour d), minute := 0, second := 0\<rparr>)"
  using assms by (auto simp: round_to_nearest_hour_def replace_hms_def valid_datetime_def Let_def)

text \<open>
  C2. The claim: for every datetime, \<open>round_to_nearest_hour\<close> returns the hour boundary,
  the next one when the minute is at least 30, with the seconds and every sub-second
  component zero. The code raises ValueError at 23:30 and later (the hour 24 is out of
  range), and it keeps the microsecond of its input.
\<close>

theorem round_to_nearest_hour_fails:
  "round_to_nearest_hour
     \<lparr>year = 2022, month = 2, day = 4, hour = 23, minute = 30, second = 0, microsecond = 0\<rparr>
     = Inl ValueError
   \<and> round_to_nearest_hour
     \<lparr>year = 2022, month = 2, day = 4, hour = 2, minute = 10, second = 7, microsecond = 500000\<rparr>
     = Inr \<lparr>year = 2022, month = 2, day = 4, hour = 2, minute = 0, second = 0, microsecond = 500000\<rparr>"
  by (simp add: round_to_nearest_hour_def replace_hms_def valid_datetime_def days_in_month_def
      is_leap_def)

subsection \<open>Durations\<close>

lemma digit_char_props:
  assumes "d < 10"
  shows "isdigit (digit_char d)" and "int_of_letter (digit_char d) = Inr d"
    and "digit_char d \<in> set ''0123456789''"
proof -
  from assms have "d \<in> {0,1,2,3,4,5,6,7,8,9}" by auto
  then show "isdigit (digit_char d)" and "int_of_letter (digit_char d) = Inr d"
    and "digit_char d \<in> set ''0123456789''"
    by (auto simp: isdigit_def int_of_letter_def digit_char_def)
qed

lemma duration_loop_digit:
  assumes "d < 10"
  shows "duration_loop (digit_char d # rest) h a = duration_loop rest h (10 * a + d)"
  using digit_char_props(1,2) [OF assms] by simp

lemma duration_loop_decimal:
  "duration_loop (decimal n @ rest) h a = duration_loop rest h (a * 10 ^ length (decimal n) + n)"
proof (induction n arbitrary: rest a rule: decimal.induct)
  case (1 n)
  show ?case
  proof (cases "n < 10")
    case True
    then have "decimal n = [digit_char n]" by (simp add: decimal.simps [of n])
    then show ?thesis using duration_loop_digit [OF True, of rest h a]
      by (simp add: mult.commute)
  next
    case False
    have dec: "decimal n = decimal (n div 10) @ [digit_char (n mod 10)]"
      using False by (simp add: decimal.simps [of n])
    have "duration_loop (decimal n @ rest) h a
            = duration_loop (decimal (n div 10) @ (digit_char (n mod 10) # rest)) h a"
      by (simp add: dec)
    also have "\<dots> = duration_loop (digit_char (n mod 10) # rest) h
                      (a * 10 ^ length (decimal (n div 10)) + n div 10)"
      using False by (rule "1.IH")
    also have "\<dots> = duration_loop rest h
                      (10 * (a * 10 ^ length (decimal (n div 10)) + n div 10) + n mod 10)"
      by (rule duration_loop_digit) simp
    also have "10 * (a * 10 ^ length (decimal (n div 10)) + n div 10) + n mod 10
                 = a * 10 ^ length (decimal n) + n"
      by (simp add: dec algebra_simps)
    finally show ?thesis .
  qed
qed

lemma unit_char_not_digit: "\<not> isdigit (unit_char u)"
  by (cases u) (simp_all add: isdigit_def)

lemma duration_loop_unit:
  "duration_loop (unit_char u # rest) h a = duration_loop rest (h + spec_hours_of (a, u)) 0"
  using unit_char_not_digit [of u] by (cases u) simp_all

lemma duration_loop_components:
  "duration_loop (render_components cs @ rest) h 0
     = duration_loop rest (h + sum_list (map spec_hours_of cs)) 0"
proof (induction cs arbitrary: h)
  case Nil
  show ?case by simp
next
  case (Cons c cs)
  obtain n u where c: "c = (n, u)" by (cases c)
  have "duration_loop (render_components (c # cs) @ rest) h 0
          = duration_loop (decimal n @ (unit_char u # render_components cs @ rest)) h 0"
    by (simp add: c)
  also have "\<dots> = duration_loop (unit_char u # render_components cs @ rest) h n"
    by (simp only: duration_loop_decimal mult_zero_left add_0_left)
  also have "\<dots> = duration_loop (render_components cs @ rest) (h + spec_hours_of (n, u)) 0"
    by (rule duration_loop_unit)
  also have "\<dots> = duration_loop rest (h + spec_hours_of (n, u) + sum_list (map spec_hours_of cs)) 0"
    by (rule Cons.IH)
  finally show ?case by (simp only: c list.map sum_list.Cons add.assoc)
qed

lemma duration_loop_skip:
  "\<not> isdigit c \<Longrightarrow> c \<noteq> CHR ''H'' \<Longrightarrow> c \<noteq> CHR ''M'' \<Longrightarrow> c \<noteq> CHR ''S'' \<Longrightarrow>
     duration_loop (c # rest) h a = duration_loop rest h a"
  by simp

lemma duration_loop_render:
  "duration_loop (render_duration cs) 0 0 = Inr (spec_duration_hours cs)"
proof -
  have "duration_loop (render_duration cs) 0 0
          = duration_loop (CHR ''T'' # render_components cs @ []) 0 0"
    unfolding render_duration_def by (simp only: append.simps append_Nil2)
      (rule duration_loop_skip; simp add: isdigit_def)
  also have "\<dots> = duration_loop (render_components cs @ []) 0 0"
    by (rule duration_loop_skip; simp add: isdigit_def)
  also have "\<dots> = duration_loop [] (0 + sum_list (map spec_hours_of cs)) 0"
    by (rule duration_loop_components)
  finally show ?thesis by (simp add: spec_duration_hours_def)
qed

lemma set_decimal: "c \<in> set (decimal n) \<Longrightarrow> c \<in> set ''0123456789''"
proof (induction n rule: decimal.induct)
  case (1 n)
  define D where "D = set ''0123456789''"
  have dig: "digit_char k \<in> D" if "k < 10" for k
    unfolding D_def using that by (rule digit_char_props(3))
  show ?case
  proof (cases "n < 10")
    case True
    then have "decimal n = [digit_char n]" by (subst decimal.simps) simp
    with "1.prems" have "c = digit_char n" by simp
    with dig [OF True] show ?thesis by (simp only: D_def)
  next
    case False
    then have "decimal n = decimal (n div 10) @ [digit_char (n mod 10)]"
      by (subst decimal.simps) simp
    with "1.prems" have "c \<in> set (decimal (n div 10)) \<or> c = digit_char (n mod 10)"
      by auto
    then show ?thesis
    proof
      assume "c \<in> set (decimal (n div 10))"
      then show ?thesis using False by (rule "1.IH" [rotated])
    next
      assume "c = digit_char (n mod 10)"
      moreover have "digit_char (n mod 10) \<in> D" by (rule dig) simp
      ultimately show ?thesis by (simp only: D_def)
    qed
  qed
qed

lemma unit_char_cases: "unit_char u = CHR ''H'' \<or> unit_char u = CHR ''M'' \<or> unit_char u = CHR ''S''"
  by (cases u) simp_all

lemma render_components_chars:
  "c \<in> set (render_components cs) \<Longrightarrow>
     c \<in> set ''0123456789'' \<or> c = CHR ''H'' \<or> c = CHR ''M'' \<or> c = CHR ''S''"
proof (induction cs)
  case Nil
  then show ?case by simp
next
  case (Cons x cs)
  obtain n u where x: "x = (n, u)" by (cases x)
  define D where "D = set ''0123456789''"
  from Cons.prems have "c \<in> set (decimal n) \<or> c = unit_char u \<or> c \<in> set (render_components cs)"
    by (auto simp: x)
  moreover have "c \<in> set (decimal n) \<Longrightarrow> c \<in> D"
    unfolding D_def by (rule set_decimal)
  moreover have "c \<in> set (render_components cs) \<Longrightarrow>
     c \<in> D \<or> c = CHR ''H'' \<or> c = CHR ''M'' \<or> c = CHR ''S''"
    unfolding D_def by (rule Cons.IH)
  ultimately have "c \<in> D \<or> c = CHR ''H'' \<or> c = CHR ''M'' \<or> c = CHR ''S''"
    using unit_char_cases [of u] by blast
  then show ?case by (simp only: D_def)
qed

lemma render_duration_chars:
  "CHR ''/'' \<notin> set (render_duration cs)" "CHR ''-'' \<notin> set (render_duration cs)"
proof -
  have "c \<notin> set (render_duration cs)" if "c = CHR ''/'' \<or> c = CHR ''-''" for c
  proof
    assume "c \<in> set (render_duration cs)"
    then have "c = CHR ''P'' \<or> c = CHR ''T'' \<or> c \<in> set (render_components cs)"
      by (simp add: render_duration_def)
    moreover have "c \<noteq> CHR ''P''" "c \<noteq> CHR ''T''" using that by auto
    ultimately have "c \<in> set (render_components cs)" by blast
    from render_components_chars [OF this] that show False by auto
  qed
  then show "CHR ''/'' \<notin> set (render_duration cs)" "CHR ''-'' \<notin> set (render_duration cs)"
    by simp_all
qed

lemma str_contains_Nil: "str_contains [] s"
  by (induction s) auto

lemma str_contains_char: "str_contains [c] s \<longleftrightarrow> c \<in> set s"
  by (induction s) auto

lemma str_contains_dashes_set: "str_contains ''--'' s \<Longrightarrow> CHR ''-'' \<in> set s"
  by (induction s) auto

lemma str_contains_append_left: "str_contains sub t \<Longrightarrow> str_contains sub (s @ t)"
  by (induction s) auto

lemma str_split_no_char: "c \<notin> set s \<Longrightarrow> str_split [c] s = [s]"
  by (induction s) auto

lemma str_split_slash:
  "c \<notin> set date \<Longrightarrow> str_split [c] (date @ c # dur) = date # str_split [c] dur"
  by (induction date) auto

lemma str_split_no_dashes: "CHR ''-'' \<notin> set s \<Longrightarrow> str_split ''--'' s = [s]"
  by (induction s) auto

lemma str_split_skip:
  "\<not> prefix sep (c # s) \<Longrightarrow>
     str_split sep (c # s) = (case str_split sep s of [] \<Rightarrow> [[c]] | p # ps \<Rightarrow> (c # p) # ps)"
  by simp

lemma str_split_dashes:
  "\<not> str_contains ''--'' (date @ ''-'') \<Longrightarrow>
     str_split ''--'' (date @ ''--'' @ dur) = date # str_split ''--'' dur"
proof (induction date)
  case Nil
  show ?case by simp
next
  case (Cons c cs)
  from Cons.prems have np: "\<not> prefix ''--'' ((c # cs) @ ''-'')" and nc: "\<not> str_contains ''--'' (cs @ ''-'')"
    by simp_all
  have "\<not> prefix ''--'' (c # (cs @ ''--'' @ dur))"
    using np by (cases cs) auto
  from str_split_skip [OF this]
  have "str_split ''--'' (c # (cs @ ''--'' @ dur))
               = (case str_split ''--'' (cs @ ''--'' @ dur) of [] \<Rightarrow> [[c]] | p # ps \<Rightarrow> (c # p) # ps)" .
  also have "\<dots> = (c # cs) # str_split ''--'' dur"
    by (simp only: Cons.IH [OF nc] list.case)
  finally show ?case by (simp only: append_Cons)
qed

lemma parse_interval_no_separator:
  assumes "\<not> str_contains ''/'' s" and "\<not> str_contains ''--'' s"
  shows "parse_interval parse s = (case parse s of Inl e \<Rightarrow> Inl e | Inr d \<Rightarrow> Inr (d, 0))"
  using assms by (simp add: parse_interval_def)

lemma parse_interval_slash:
  assumes "\<not> str_contains ''/'' date"
  shows "parse_interval parse (date @ ''/'' @ render_duration cs)
           = (case parse date of Inl e \<Rightarrow> Inl e | Inr d \<Rightarrow> Inr (d, spec_duration_hours cs))"
proof -
  have d: "CHR ''/'' \<notin> set date" using assms by (simp add: str_contains_char)
  have c: "str_contains ''/'' (date @ ''/'' @ render_duration cs)"
    by (simp add: str_contains_char)
  have "str_split ''/'' (date @ ''/'' @ render_duration cs) = date # str_split ''/'' (render_duration cs)"
    using str_split_slash [OF d] by simp
  also have "str_split ''/'' (render_duration cs) = [render_duration cs]"
    by (rule str_split_no_char) (rule render_duration_chars)
  finally have sp: "str_split ''/'' (date @ ''/'' @ render_duration cs) = [date, render_duration cs]" .
  show ?thesis
    unfolding parse_interval_def by (simp only: c if_True Let_def option.case sp list.case duration_loop_render sum.case)
qed

lemma parse_interval_dashes:
  assumes "\<not> str_contains ''/'' date" and "\<not> str_contains ''--'' (date @ ''-'')"
  shows "parse_interval parse (date @ ''--'' @ render_duration cs)
           = (case parse date of Inl e \<Rightarrow> Inl e | Inr d \<Rightarrow> Inr (d, spec_duration_hours cs))"
proof -
  have "CHR ''/'' \<notin> set (date @ ''--'' @ render_duration cs)"
    using assms(1) render_duration_chars(1) [of cs] by (simp add: str_contains_char)
  then have c1: "\<not> str_contains ''/'' (date @ ''--'' @ render_duration cs)"
    by (simp only: str_contains_char not_False_eq_True)
  have "str_contains ''--'' (''--'' @ render_duration cs)" by simp
  then have c2: "str_contains ''--'' (date @ ''--'' @ render_duration cs)"
    by (rule str_contains_append_left)
  have "str_split ''--'' (date @ ''--'' @ render_duration cs) = date # str_split ''--'' (render_duration cs)"
    by (rule str_split_dashes) (rule assms(2))
  also have "str_split ''--'' (render_duration cs) = [render_duration cs]"
    by (rule str_split_no_dashes) (rule render_duration_chars)
  finally have sp: "str_split ''--'' (date @ ''--'' @ render_duration cs) = [date, render_duration cs]" .
  show ?thesis
    unfolding parse_interval_def
    by (simp only: c1 c2 if_True if_False Let_def option.case sp list.case duration_loop_render sum.case)
qed

text \<open>
  C5. For an interval with a separator \<open>/\<close> or \<open>--\<close> followed by a duration of the form
  \<open>PTnHnMnS\<close>, \<open>parse_interval\<close> returns, with the parsed date, the sum of the H values,
  of each M value floor-divided by 60 and of each S value floor-divided by 360; for an
  interval with no separator it returns the duration 0. Where \<open>parser.parse\<close> raises, so
  does \<open>parse_interval\<close>. In the \<open>--\<close> form the date holds no \<open>/\<close> (it would be taken as the
  separator) and the first \<open>--\<close> of the interval is the separator.
\<close>

theorem parse_interval_duration:
  "(\<not> str_contains ''/'' s \<and> \<not> str_contains ''--'' s \<longrightarrow>
      parse_interval parse s = (case parse s of Inl e \<Rightarrow> Inl e | Inr d \<Rightarrow> Inr (d, 0)))
   \<and> (\<not> str_contains ''/'' date \<longrightarrow>
      parse_interval parse (date @ ''/'' @ render_duration cs)
        = (case parse date of Inl e \<Rightarrow> Inl e | Inr d \<Rightarrow> Inr (d, spec_duration_hours cs)))
   \<and> (\<not> str_contains ''/'' date \<and> \<not> str_contains ''--'' (date @ ''-'') \<longrightarrow>
      parse_interval parse (date @ ''--'' @ render_duration cs)
        = (case parse date of Inl e \<Rightarrow> Inl e | Inr d \<Rightarrow> Inr (d, spec_duration_hours cs)))"
  using parse_interval_no_separator [of s parse] parse_interval_slash [of date parse cs]
    parse_interval_dashes [of date parse cs] by blast

theorem parse_interval_duration_witness:
  "parse_interval Inr ''2022-02-04T02:00:00+00:00'' = Inr (''2022-02-04T02:00:00+00:00'', 0)
   \<and> parse_interval Inr ''2022-02-04T02:00:00+00:00/PT1H90M720S''
       = Inr (''2022-02-04T02:00:00+00:00'', 4)
   \<and> parse_interval Inr ''2022-02-04T02:00:00+00:00--PT1H90M720S''
       = Inr (''2022-02-04T02:00:00+00:00'', 4)"
proof -
  have r: "render_duration [(1, H), (90, M), (720, S)] = ''PT1H90M720S''"
    by (simp add: render_duration_def decimal.simps digit_char_def)
  have h: "spec_duration_hours [(1, H), (90, M), (720, S)] = 4"
    by (simp add: spec_duration_hours_def)
  have p: "\<not> str_contains ''/'' ''2022-02-04T02:00:00+00:00''"
    "\<not> str_contains ''--'' ''2022-02-04T02:00:00+00:00''"
    "\<not> str_contains ''--'' (''2022-02-04T02:00:00+00:00'' @ ''-'')"
    by simp_all
  from parse_interval_duration [where s = "''2022-02-04T02:00:00+00:00''"
      and date = "''2022-02-04T02:00:00+00:00''" and parse = Inr
      and cs = "[(1, H), (90, M), (720, S)]"] p
  show ?thesis unfolding r h by simp
qed

subsection \<open>Interval expansion\<close>

lemma set_update_subset: "set (AList.update k v al) \<subseteq> insert (k, v) (set al)"
  by (induction al) auto

lemma get_row_length: "rows_width w md \<Longrightarrow> length (get_row w md k) = w"
  by (auto simp: rows_width_def get_row_def list_all_iff split: option.splits dest!: map_of_SomeD)

lemma get_row_update:
  "get_row w (AList.update k r md) k' = (if k' = k then r else get_row w md k')"
  by (simp add: get_row_def update_conv')

lemma set_cell_effect:
  assumes "rows_width w md" and "i < w"
  shows "\<exists>md'. set_cell w md k i v = Inr md' \<and> rows_width w md'
           \<and> fst ` set md' = insert k (fst ` set md)
           \<and> (\<forall>k'. get_row w md' k' = (if k' = k then (get_row w md k)[i := v] else get_row w md k'))"
proof -
  let ?row = "(get_row w md k)[i := v]"
  have len: "length (get_row w md k) = w" using assms(1) by (rule get_row_length)
  then have eq: "set_cell w md k i v = Inr (AList.update k ?row md)"
    using assms(2) by (simp add: set_cell_def)
  have "rows_width w (AList.update k ?row md)"
    using assms(1) len set_update_subset [of k ?row md]
    by (auto simp: rows_width_def list_all_iff)
  moreover have "fst ` set (AList.update k ?row md) = insert k (fst ` set md)"
    by (simp add: dom_update)
  ultimately show ?thesis using eq by (simp add: get_row_update)
qed

lemma next_hour_rank: "next_hour d = Inr d' \<Longrightarrow> hour_rank d < hour_rank d'"
  by (auto simp: next_hour_def hour_rank_def less_prod_def split: if_splits)

lemma add_hours_rank:
  "add_hours T a = Inr x \<Longrightarrow> add_hours T b = Inr y \<Longrightarrow> a < b \<Longrightarrow> hour_rank x < hour_rank y"
proof (induction b arbitrary: y)
  case 0
  then show ?case by simp
next
  case (Suc b)
  from Suc.prems(2) obtain z where z: "add_hours T b = Inr z" and n: "next_hour z = Inr y"
    by (auto split: sum.splits)
  have zy: "hour_rank z < hour_rank y" using n by (rule next_hour_rank)
  show ?case
  proof (cases "a = b")
    case True
    with z Suc.prems(1) have "x = z" by simp
    with zy show ?thesis by simp
  next
    case False
    with Suc.prems(3) have "a < b" by simp
    from Suc.IH [OF Suc.prems(1) z this] zy show ?thesis by (rule less_trans)
  qed
qed

lemma add_hours_distinct:
  assumes "\<forall>h<length ts. add_hours T h = Inr (ts ! h)"
  shows "distinct ts"
proof -
  have "ts ! a \<noteq> ts ! b" if "a < b" "b < length ts" for a b
  proof -
    from that assms have "add_hours T a = Inr (ts ! a)" "add_hours T b = Inr (ts ! b)" by auto
    from add_hours_rank [OF this that(1)] show ?thesis by auto
  qed
  then have "ts ! a \<noteq> ts ! b" if "a < length ts" "b < length ts" "a \<noteq> b" for a b
    using that by (metis linorder_neqE_nat)
  then show ?thesis by (simp add: distinct_conv_nth)
qed

lemma expand_hours_effect:
  assumes "rows_width 5 md" and "i < 5" and "\<forall>h\<in>set hs. \<exists>k. add_hours T h = Inr k"
  shows "\<exists>md'. expand_hours md T i v hs = Inr md' \<and> rows_width 5 md'
           \<and> fst ` set md' = fst ` set md \<union> {k. \<exists>h\<in>set hs. add_hours T h = Inr k}
           \<and> (\<forall>k j. j < 5 \<longrightarrow> get_row 5 md' k ! j =
                 (if (\<exists>h\<in>set hs. add_hours T h = Inr k) \<and> j = i then v
                  else get_row 5 md k ! j))"
  using assms
proof (induction hs arbitrary: md)
  case Nil
  then show ?case by simp
next
  case (Cons h hs)
  from Cons.prems(3) obtain k where k: "add_hours T h = Inr k" by auto
  from set_cell_effect [OF Cons.prems(1,2), of k v]
  obtain md1 where s: "set_cell 5 md k i v = Inr md1" and w1: "rows_width 5 md1"
    and k1: "fst ` set md1 = insert k (fst ` set md)"
    and g1: "\<And>k'. get_row 5 md1 k' = (if k' = k then (get_row 5 md k)[i := v] else get_row 5 md k')"
    by blast
  from Cons.prems(3) have "\<forall>h\<in>set hs. \<exists>k. add_hours T h = Inr k" by simp
  from Cons.IH [OF w1 Cons.prems(2) this]
  obtain md' where e: "expand_hours md1 T i v hs = Inr md'" and w': "rows_width 5 md'"
    and k': "fst ` set md' = fst ` set md1 \<union> {k. \<exists>h\<in>set hs. add_hours T h = Inr k}"
    and g': "\<And>k j. j < 5 \<Longrightarrow> get_row 5 md' k ! j =
                 (if (\<exists>h\<in>set hs. add_hours T h = Inr k) \<and> j = i then v
                  else get_row 5 md1 k ! j)"
    by blast
  have len: "length (get_row 5 md k) = 5" using Cons.prems(1) by (rule get_row_length)
  have "expand_hours md T i v (h # hs) = Inr md'" by (simp add: k s e)
  moreover have "fst ` set md' = fst ` set md \<union> {k. \<exists>h\<in>set (h # hs). add_hours T h = Inr k}"
    using k k1 k' by auto
  moreover have "get_row 5 md' k0 ! j =
                 (if (\<exists>h\<in>set (h # hs). add_hours T h = Inr k0) \<and> j = i then v
                  else get_row 5 md k0 ! j)" if "j < 5" for k0 j
    using g' [OF that, of k0] g1 [of k0] k len that Cons.prems(2)
    by (auto simp: nth_list_update)
  ultimately show ?case using w' by blast
qed

text \<open>
  C1, as amended. For a sample with rounded start time \<open>T\<close> and duration \<open>D\<close> hours, where
  the times \<open>T, T+1h, \<dots>, T+(D-1)h\<close> exist (\<open>ts\<close>, none after the year 9999), the expansion
  returns; these \<open>D\<close> times are distinct; the keys of the table are the old ones and these
  times; and the cell of the sample's label at each of these times holds the sample's
  value, every other cell being unchanged. For \<open>D = 0\<close> nothing is written.
\<close>

theorem expand_sample_readings:
  assumes "rows_width 5 md" and "label_idx < 5" and "length ts = D"
    and "\<forall>h<D. add_hours T h = Inr (ts ! h)"
  shows "\<exists>md'. expand_sample md T label_idx v D = Inr md' \<and> distinct ts
           \<and> fst ` set md' = fst ` set md \<union> set ts
           \<and> (\<forall>k j. j < 5 \<longrightarrow> get_row 5 md' k ! j =
                 (if k \<in> set ts \<and> j = label_idx then v else get_row 5 md k ! j))"
proof -
  have ks: "{k. \<exists>h\<in>set [0..<D]. add_hours T h = Inr k} = set ts"
  proof (intro set_eqI iffI)
    fix k assume "k \<in> {k. \<exists>h\<in>set [0..<D]. add_hours T h = Inr k}"
    then obtain h where "h < D" "add_hours T h = Inr k" by auto
    with assms(3,4) show "k \<in> set ts" by (auto simp: in_set_conv_nth)
  next
    fix k assume "k \<in> set ts"
    then obtain h where "h < D" "ts ! h = k" using assms(3) by (auto simp: in_set_conv_nth)
    with assms(4) have "h \<in> set [0..<D]" "add_hours T h = Inr k" by auto
    then show "k \<in> {k. \<exists>h\<in>set [0..<D]. add_hours T h = Inr k}" by blast
  qed
  have "\<forall>h\<in>set [0..<D]. \<exists>k. add_hours T h = Inr k" using assms(4) by auto
  from expand_hours_effect [OF assms(1,2) this, of v]
  obtain md' where "expand_hours md T label_idx v [0..<D] = Inr md'"
    and "fst ` set md' = fst ` set md \<union> {k. \<exists>h\<in>set [0..<D]. add_hours T h = Inr k}"
    and "\<And>k j. j < 5 \<Longrightarrow> get_row 5 md' k ! j =
                 (if (\<exists>h\<in>set [0..<D]. add_hours T h = Inr k) \<and> j = label_idx then v
                  else get_row 5 md k ! j)"
    by blast
  moreover have "(\<exists>h\<in>set [0..<D]. add_hours T h = Inr k) \<longleftrightarrow> k \<in> set ts" for k
    using ks by blast
  moreover have "distinct ts" using assms(3,4) by (intro add_hours_distinct [of ts T]) simp
  ultimately show ?thesis unfolding expand_sample_def by (simp add: ks)
qed

theorem expand_sample_readings_witness:
  "\<exists>md'. expand_sample []
       \<lparr>year = 2022, month = 2, day = 4, hour = 2, minute = 0, second = 0, microsecond = 0\<rparr>
       0 (Some (5::int)) 4 = Inr md'
     \<and> fst ` set md' = set
       [\<lparr>year = 2022, month = 2, day = 4, hour = 2, minute = 0, second = 0, microsecond = 0\<rparr>,
        \<lparr>year = 2022, month = 2, day = 4, hour = 3, minute = 0, second = 0, microsecond = 0\<rparr>,
        \<lparr>year = 2022, month = 2, day = 4, hour = 4, minute = 0, second = 0, microsecond = 0\<rparr>,
        \<lparr>year = 2022, month = 2, day = 4, hour = 5, minute = 0, second = 0, microsecond = 0\<rparr>]
     \<and> get_row 5 md'
        \<lparr>year = 2022, month = 2, day = 4, hour = 5, minute = 0, second = 0, microsecond = 0\<rparr> ! 0
       = Some 5"
proof -
  let ?T = "\<lparr>year = 2022, month = 2, day = 4, hour = 2, minute = 0, second = 0, microsecond = 0\<rparr>"
  let ?ts = "[?T, ?T\<lparr>hour := 3\<rparr>, ?T\<lparr>hour := 4\<rparr>, ?T\<lparr>hour := 5\<rparr>]"
  have w: "rows_width 5 ([] :: (datetime \<times> int option list) list)"
    by (simp add: rows_width_def)
  have i: "(0::nat) < 5" by simp
  have l: "length ?ts = 4" by simp
  have a: "\<forall>h<4. add_hours ?T h = Inr (?ts ! h)"
  proof (intro allI impI)
    fix h :: nat assume "h < 4"
    then have "h = 0 \<or> h = 1 \<or> h = 2 \<or> h = 3" by auto
    then show "add_hours ?T h = Inr (?ts ! h)"
      by (auto simp: next_hour_def numeral_2_eq_2 numeral_3_eq_3)
  qed
  from expand_sample_readings [OF w i l a, of "Some 5"]
  obtain md' where "expand_sample [] ?T 0 (Some (5::int)) 4 = Inr md'"
    and "fst ` set md' = set ?ts"
    and "\<And>k j. j < 5 \<Longrightarrow> get_row 5 md' k ! j =
           (if k \<in> set ?ts \<and> j = 0 then Some 5 else get_row 5 [] k ! j)"
    by auto
  from this(1,2) this(3) [of 0 "?T\<lparr>hour := 5\<rparr>"] show ?thesis
    by (intro exI [of _ md']) simp
qed

text \<open>
  C1 as stated fails for the duration 0: the loop over \<open>range(0, 0)\<close> has no iteration,
  and a sample without a duration suffix leaves the table without a reading.
\<close>

theorem expand_sample_zero_duration:
  "expand_sample []
     \<lparr>year = 2022, month = 2, day = 4, hour = 2, minute = 0, second = 0, microsecond = 0\<rparr>
     0 (Some (5::int)) 0 = Inr []"
  by (simp add: expand_sample_def)

section \<open>Properties of the Lake Tahoe station module\<close>

subsection \<open>The empty table\<close>

lemma remove_outliers_empty:
  "remove_outliers ((''time'', []) # map (\<lambda>f. (f, [])) features) = Inl ValueError"
  by (simp add: features_def remove_outliers_def median_filtering_def median_body_def column_op_def
      median_filter_def rolling_def setitem_def clip_stage_def ATTR_BOUNDS_def clip_body_def
      clip_def sigma_stage_def sigma_body_def sigma_repair_def setitem0_def series_binop_def
      series_scale_def series_lt_def getitem_def)

lemma merge_one_buoy:
  "merge_streams
       [\<lparr>TmStamp = 0, AirTemp_1 = Some 10, AirTemp_2 = Some 20, WindDir_1 = Some 90,
         WindDir_2 = Some 90, WindSpeed_1 = Some 3, WindSpeed_2 = Some 5\<rparr>] []
    = Inr [(0, [None, Some 15, None, None, None, Some 4, Some 90])]"
  by (simp add: merge_streams_def buoy_body_def set_cells_def set_cell_def get_row_def
      features_def index_def cell_binop_def scalar_div_def)

text \<open>
  C9. The claim: on empty input, and on input whose rows are all trimmed, the pipeline
  returns an empty table and raises nothing. In the code the table with no rows reaches
  \<open>remove_outliers\<close>, where \<open>std[0] = 0\<close> on the empty series adds the label 0; the bands
  then have one cell, and their comparison with the empty column raises ValueError.
\<close>

theorem pipeline_raises_on_empty_table:
  "get_model_historical_data [] [] = Inl ValueError
   \<and> get_model_historical_data
       [\<lparr>TmStamp = 0, AirTemp_1 = Some 10, AirTemp_2 = Some 20, WindDir_1 = Some 90,
         WindDir_2 = Some 90, WindSpeed_1 = Some 3, WindSpeed_2 = Some 5\<rparr>] []
     = Inl ValueError"
proof -
  have t: "sort_values_time (trim_nan (to_dataframe h)) = Inr ((''time'', []) # map (\<lambda>f. (f, [])) features)"
    if "h = [] \<or> h = [(0, [None, Some 15, None, None, None, Some 4, Some 90])]" for h
    using that
    by (auto simp: to_dataframe_def trim_nan_def drop_rows_def rows_with_nan_def nrows_def
        take_rows_def sort_values_time_def getitem_def features_def)
  have "merge_streams [] [] = Inr []" by (simp add: merge_streams_def)
  then show ?thesis
    by (simp add: get_model_historical_data_def t merge_one_buoy remove_outliers_empty)
qed

subsection \<open>Gap trimming\<close>

lemma nrows_take_rows: "df \<noteq> [] \<Longrightarrow> nrows (take_rows idxs df) = length idxs"
  by (cases df) (simp_all add: nrows_def take_rows_def)

lemma row_take_rows: "j < length idxs \<Longrightarrow> row (take_rows idxs df) j = row df (idxs ! j)"
  by (simp add: row_def take_rows_def comp_def)

lemma rows_take_rows:
  assumes "df \<noteq> []"
  shows "rows (take_rows idxs df) = map (row df) idxs"
proof (rule nth_equalityI)
  show "length (rows (take_rows idxs df)) = length (map (row df) idxs)"
    using assms by (simp add: rows_def nrows_take_rows)
next
  fix j assume "j < length (rows (take_rows idxs df))"
  then have j: "j < length idxs" using assms by (simp add: rows_def nrows_take_rows)
  then have "rows (take_rows idxs df) ! j = row (take_rows idxs df) j"
    using assms by (simp add: rows_def nrows_take_rows)
  also have "\<dots> = row df (idxs ! j)" using j by (rule row_take_rows)
  finally show "rows (take_rows idxs df) ! j = map (row df) idxs ! j" using j by simp
qed

lemma row_has_nan: "list_ex (\<lambda>c. snd c ! i = None) df \<longleftrightarrow> None \<in> set (row df i)"
proof
  assume "list_ex (\<lambda>c. snd c ! i = None) df"
  then obtain c where "c \<in> set df" "snd c ! i = None" by (auto simp: list_ex_iff)
  then show "None \<in> set (row df i)" unfolding row_def set_map by (metis imageI)
next
  assume "None \<in> set (row df i)"
  then obtain c where "c \<in> set df" "None = snd c ! i" unfolding row_def by auto
  then show "list_ex (\<lambda>c. snd c ! i = None) df" unfolding list_ex_iff by (intro bexI [of _ c]) simp_all
qed

lemma trim_nan_keep:
  "trim_nan df = take_rows (filter (\<lambda>i. None \<notin> set (row df i)) [0..<nrows df]) df"
proof -
  have "filter (\<lambda>i. i \<notin> set (rows_with_nan df)) [0..<nrows df]
          = filter (\<lambda>i. None \<notin> set (row df i)) [0..<nrows df]"
    by (rule filter_cong) (auto simp: rows_with_nan_def row_has_nan)
  then show ?thesis by (simp add: trim_nan_def drop_rows_def)
qed


text \<open>
C6. The trim removes exactly the rows with an absent cell: the rows of the trimmed
  frame are the rows of the frame without a \<open>nan\<close>, in their order and with their values;
  the columns keep their names; and no cell of the trimmed frame is absent.
\<close>

theorem trim_nan_rows:
  "rows (trim_nan df) = filter (\<lambda>r. None \<notin> set r) (rows df)
   \<and> map fst (trim_nan df) = map fst df
   \<and> (\<forall>c\<in>set (trim_nan df). None \<notin> set (snd c))"
proof (intro conjI ballI)
  let ?keep = "filter (\<lambda>i. None \<notin> set (row df i)) [0..<nrows df]"
  show "rows (trim_nan df) = filter (\<lambda>r. None \<notin> set r) (rows df)"
  proof (cases "df = []")
    case True
    then show ?thesis by (simp add: trim_nan_keep rows_def nrows_def take_rows_def)
  next
    case False
    have "rows (trim_nan df) = map (row df) ?keep"
      unfolding trim_nan_keep using False by (rule rows_take_rows)
    also have "\<dots> = filter (\<lambda>r. None \<notin> set r) (map (row df) [0..<nrows df])"
      by (simp only: filter_map comp_def)
    finally show ?thesis by (simp only: rows_def)
  qed
  show "map fst (trim_nan df) = map fst df"
    by (simp add: trim_nan_keep take_rows_def comp_def)
  fix c assume "c \<in> set (trim_nan df)"
  then obtain d where d: "d \<in> set df" and c: "snd c = map (\<lambda>i. snd d ! i) ?keep"
    by (auto simp: trim_nan_keep take_rows_def)
  show "None \<notin> set (snd c)"
  proof
    assume "None \<in> set (snd c)"
    then obtain i where i: "i \<in> set ?keep" and n: "snd d ! i = None"
      unfolding c by (auto simp: image_iff)
    from i have "None \<notin> set (row df i)" by simp
    moreover from d n have "None \<in> set (row df i)"
      using row_has_nan [of i df] by (auto simp: list_ex_iff)
    ultimately show False by contradiction
  qed
qed

theorem trim_nan_rows_witness:
  "rows (trim_nan [(''time'', [Some 0, Some 1, Some 2]), (''air temp'', [Some 5, None, Some 7])])
     = [[Some 0, Some 5], [Some 2, Some 7]]
   \<and> trim_nan [(''time'', [Some 0, Some 1, Some 2]), (''air temp'', [Some 5, None, Some 7])]
     = [(''time'', [Some 0, Some 2]), (''air temp'', [Some 5, Some 7])]"
proof -
  let ?df = "[(''time'', [Some 0, Some 1, Some 2]), (''air temp'', [Some 5, None, Some 7])] :: dataframe"
  have r: "rows ?df = [[Some 0, Some 5], [Some 1, None], [Some 2, Some 7]]"
    by (simp add: rows_def nrows_def row_def upt_rec)
  have t: "trim_nan ?df = [(''time'', [Some 0, Some 2]), (''air temp'', [Some 5, Some 7])]"
    by (simp add: trim_nan_def drop_rows_def rows_with_nan_def nrows_def take_rows_def upt_rec)
  from trim_nan_rows [of ?df] have "rows (trim_nan ?df) = filter (\<lambda>r. None \<notin> set r) (rows ?df)"
    by blast
  then show ?thesis unfolding r using t by simp
qed

subsection \<open>Merging the two streams\<close>

lemma for_each_append:
  "for_each body (xs @ ys) s =
     (case for_each body xs s of Inl e \<Rightarrow> Inl e | Inr s' \<Rightarrow> for_each body ys s')"
  by (induction xs arbitrary: s) (auto split: sum.splits)

lemma length_features: "length features = 7"
  by (simp add: features_def)

lemma index_features:
  "index features ''shortwave'' = 0" "index features ''air temp'' = 1"
  "index features ''atmospheric pressure'' = 2" "index features ''relative humidity'' = 3"
  "index features ''longwave'' = 4" "index features ''wind speed'' = 5"
  "index features ''wind direction'' = 6"
  by (simp_all add: index_def features_def)

lemma set_cells_effect:
  assumes "rows_width 7 h" and "\<forall>iv\<in>set ivs. fst iv < 7"
  shows "\<exists>h'. set_cells h t ivs = Inr h' \<and> rows_width 7 h'
           \<and> (\<forall>k. k \<noteq> t \<longrightarrow> get_row 7 h' k = get_row 7 h k)
           \<and> (\<forall>j. j \<notin> fst ` set ivs \<longrightarrow> get_row 7 h' t ! j = get_row 7 h t ! j)
           \<and> (\<forall>iv\<in>set ivs. distinct (map fst ivs) \<longrightarrow> get_row 7 h' t ! fst iv = snd iv)"
  using assms
proof (induction ivs arbitrary: h)
  case Nil
  then show ?case by (simp add: set_cells_def)
next
  case (Cons iv ivs)
  from Cons.prems(2) have i: "fst iv < 7" by simp
  from set_cell_effect [OF Cons.prems(1) i, of t "snd iv"]
  obtain h1 where s: "set_cell 7 h t (fst iv) (snd iv) = Inr h1" and w1: "rows_width 7 h1"
    and g1: "\<And>k'. get_row 7 h1 k' = (if k' = t then (get_row 7 h t)[fst iv := snd iv] else get_row 7 h k')"
    by blast
  from Cons.prems(2) have "\<forall>iv\<in>set ivs. fst iv < 7" by simp
  from Cons.IH [OF w1 this]
  obtain h' where e: "set_cells h1 t ivs = Inr h'" and w': "rows_width 7 h'"
    and o: "\<And>k. k \<noteq> t \<Longrightarrow> get_row 7 h' k = get_row 7 h1 k"
    and u: "\<And>j. j \<notin> fst ` set ivs \<Longrightarrow> get_row 7 h' t ! j = get_row 7 h1 t ! j"
    and v: "\<And>iv. iv \<in> set ivs \<Longrightarrow> distinct (map fst ivs) \<Longrightarrow> get_row 7 h' t ! fst iv = snd iv"
    by blast
  have len: "length (get_row 7 h t) = 7" using Cons.prems(1) by (rule get_row_length)
  have "set_cells h t (iv # ivs) = Inr h'"
    using s e by (simp add: set_cells_def length_features)
  moreover have "get_row 7 h' k = get_row 7 h k" if "k \<noteq> t" for k
    using o [OF that] g1 [of k] that by simp
  moreover have "get_row 7 h' t ! j = get_row 7 h t ! j" if "j \<notin> fst ` set (iv # ivs)" for j
  proof -
    from that have "j \<notin> fst ` set ivs" "j \<noteq> fst iv" by auto
    with u [of j] g1 [of t] show ?thesis by simp
  qed
  moreover have "get_row 7 h' t ! fst iv' = snd iv'"
    if "iv' \<in> set (iv # ivs)" "distinct (map fst (iv # ivs))" for iv'
  proof (cases "iv' = iv")
    case True
    from that(2) have "fst iv \<notin> fst ` set ivs" by simp
    from u [OF this] g1 [of t] len i True show ?thesis by simp
  next
    case False
    with that show ?thesis using v [of iv'] by simp
  qed
  ultimately show ?case using w' by blast
qed

lemma scalar_div_sum: "scalar_div (cell_binop (\<lambda>a b. a + b) a b) 2 = mean_of_two a b"
  by (simp add: scalar_div_def cell_binop_def mean_of_two_def split: option.splits)

lemma buoy_body_effect:
  assumes "rows_width 7 h"
  shows "\<exists>h'. buoy_body s h = Inr h' \<and> rows_width 7 h'
           \<and> (\<forall>k. k \<noteq> TmStamp s \<longrightarrow> get_row 7 h' k = get_row 7 h k)
           \<and> get_row 7 h' (TmStamp s) ! 1 = mean_of_two (AirTemp_1 s) (AirTemp_2 s)
           \<and> get_row 7 h' (TmStamp s) ! 5 = mean_of_two (WindSpeed_1 s) (WindSpeed_2 s)
           \<and> get_row 7 h' (TmStamp s) ! 6 = mean_of_two (WindDir_1 s) (WindDir_2 s)"
proof -
  let ?ivs = "[(1::nat, mean_of_two (AirTemp_1 s) (AirTemp_2 s)),
               (5, mean_of_two (WindSpeed_1 s) (WindSpeed_2 s)),
               (6, mean_of_two (WindDir_1 s) (WindDir_2 s))]"
  have b: "buoy_body s h = set_cells h (TmStamp s) ?ivs"
    by (simp add: buoy_body_def index_features scalar_div_sum)
  have "\<forall>iv\<in>set ?ivs. fst iv < 7" by simp
  from set_cells_effect [OF assms this, of "TmStamp s"]
  obtain h' where "set_cells h (TmStamp s) ?ivs = Inr h'" "rows_width 7 h'"
    "\<And>k. k \<noteq> TmStamp s \<Longrightarrow> get_row 7 h' k = get_row 7 h k"
    "\<And>iv. iv \<in> set ?ivs \<Longrightarrow> distinct (map fst ?ivs) \<Longrightarrow> get_row 7 h' (TmStamp s) ! fst iv = snd iv"
    by blast
  from this(1,2,3) this(4) [of "?ivs ! 0"] this(4) [of "?ivs ! 1"] this(4) [of "?ivs ! 2"]
  show ?thesis unfolding b by simp
qed

lemma uscg_body_effect:
  assumes "rows_width 7 h"
  shows "\<exists>h'. uscg_body s h = Inr h' \<and> rows_width 7 h'
           \<and> (\<forall>k j. j = 1 \<or> j = 5 \<or> j = 6 \<longrightarrow> get_row 7 h' k ! j = get_row 7 h k ! j)"
proof -
  obtain ivs where b: "uscg_body s h = set_cells h (TmStamp s) ivs" and f: "map fst ivs = [0, 2, 3, 4]"
    by (simp add: uscg_body_def index_features)
  from f have f': "fst ` set ivs = {0, 2, 3, 4}" by (metis list.set_map list.simps(15) empty_set)
  have "\<forall>iv\<in>set ivs. fst iv < 7"
  proof
    fix iv assume "iv \<in> set ivs"
    then have "fst iv \<in> {0, 2, 3, 4}" unfolding f' [symmetric] by (rule imageI)
    then show "fst iv < 7" by auto
  qed
  from set_cells_effect [OF assms this, of "TmStamp s"]
  obtain h' where s: "set_cells h (TmStamp s) ivs = Inr h'" and w: "rows_width 7 h'"
    and o: "\<And>k. k \<noteq> TmStamp s \<Longrightarrow> get_row 7 h' k = get_row 7 h k"
    and u: "\<And>j. j \<notin> fst ` set ivs \<Longrightarrow> get_row 7 h' (TmStamp s) ! j = get_row 7 h (TmStamp s) ! j"
    by blast
  have "get_row 7 h' k ! j = get_row 7 h k ! j" if "j = 1 \<or> j = 5 \<or> j = 6" for k j
  proof (cases "k = TmStamp s")
    case True
    from that have "j \<notin> fst ` set ivs" unfolding f' by auto
    from u [OF this] True show ?thesis by simp
  next
    case False
    then show ?thesis by (simp add: o)
  qed
  with s w show ?thesis unfolding b by blast
qed

lemma buoy_loop_returns:
  "rows_width 7 h \<Longrightarrow> \<exists>h'. for_each buoy_body ss h = Inr h' \<and> rows_width 7 h'"
proof (induction ss arbitrary: h)
  case Nil
  then show ?case by simp
next
  case (Cons s ss)
  from buoy_body_effect [OF Cons.prems, of s]
  obtain h1 where "buoy_body s h = Inr h1" "rows_width 7 h1" by blast
  with Cons.IH [of h1] show ?case by auto
qed

lemma buoy_loop_other_times:
  "rows_width 7 h \<Longrightarrow> \<forall>s\<in>set ss. TmStamp s \<noteq> t \<Longrightarrow>
     \<exists>h'. for_each buoy_body ss h = Inr h' \<and> rows_width 7 h' \<and> get_row 7 h' t = get_row 7 h t"
proof (induction ss arbitrary: h)
  case Nil
  then show ?case by simp
next
  case (Cons s ss)
  from buoy_body_effect [OF Cons.prems(1), of s]
  obtain h1 where h1: "buoy_body s h = Inr h1" "rows_width 7 h1"
    and o: "\<And>k. k \<noteq> TmStamp s \<Longrightarrow> get_row 7 h1 k = get_row 7 h k" by blast
  from Cons.prems(2) have "TmStamp s \<noteq> t" "\<forall>s\<in>set ss. TmStamp s \<noteq> t" by simp_all
  with Cons.IH [OF h1(2)] o [of t] h1(1) show ?case by auto
qed

lemma uscg_loop_keeps:
  "rows_width 7 h \<Longrightarrow>
     \<exists>h'. for_each uscg_body ss h = Inr h' \<and> rows_width 7 h'
       \<and> (\<forall>k j. j = 1 \<or> j = 5 \<or> j = 6 \<longrightarrow> get_row 7 h' k ! j = get_row 7 h k ! j)"
proof (induction ss arbitrary: h)
  case Nil
  then show ?case by simp
next
  case (Cons s ss)
  from uscg_body_effect [OF Cons.prems, of s]
  obtain h1 where h1: "uscg_body s h = Inr h1" "rows_width 7 h1"
    and o: "\<And>k j. j = 1 \<or> j = 5 \<or> j = 6 \<Longrightarrow> get_row 7 h1 k ! j = get_row 7 h k ! j" by blast
  from Cons.IH [OF h1(2)]
  obtain h' where h': "for_each uscg_body ss h1 = Inr h'" "rows_width 7 h'"
    and o': "\<And>k j. j = 1 \<or> j = 5 \<or> j = 6 \<Longrightarrow> get_row 7 h' k ! j = get_row 7 h1 k ! j" by blast
  have "for_each uscg_body (s # ss) h = Inr h'" using h1(1) h'(1) by simp
  moreover have "get_row 7 h' k ! j = get_row 7 h k ! j" if "j = 1 \<or> j = 5 \<or> j = 6" for k j
    using o [OF that, of k] o' [OF that, of k] by simp
  ultimately show ?case using h'(2) by blast
qed

text \<open>
  C8. The value that the merge stores for air temperature, wind speed and wind
  direction at the timestamp of a buoy sample is the arithmetic mean of the sample's two
  raw values, for the last sample of the response with that timestamp (a later sample
  with the same timestamp overwrites an earlier one); the USCG samples write to other
  columns only. Raw values 10 and 20 give 15.
\<close>

theorem merge_streams_average:
  assumes "buoy_json = pre @ s # post" and "\<forall>s'\<in>set post. TmStamp s' \<noteq> TmStamp s"
  shows "\<exists>historical. merge_streams buoy_json uscg_json = Inr historical
           \<and> get_row 7 historical (TmStamp s) ! index features ''air temp''
               = mean_of_two (AirTemp_1 s) (AirTemp_2 s)
           \<and> get_row 7 historical (TmStamp s) ! index features ''wind speed''
               = mean_of_two (WindSpeed_1 s) (WindSpeed_2 s)
           \<and> get_row 7 historical (TmStamp s) ! index features ''wind direction''
               = mean_of_two (WindDir_1 s) (WindDir_2 s)"
proof -
  have w0: "rows_width 7 ([] :: (real \<times> cell list) list)" by (simp add: rows_width_def)
  from buoy_loop_returns [OF w0, of pre]
  obtain h1 where h1: "for_each buoy_body pre [] = Inr h1" "rows_width 7 h1" by blast
  from buoy_body_effect [OF h1(2), of s]
  obtain h2 where h2: "buoy_body s h1 = Inr h2" "rows_width 7 h2"
    and v2: "get_row 7 h2 (TmStamp s) ! 1 = mean_of_two (AirTemp_1 s) (AirTemp_2 s)"
      "get_row 7 h2 (TmStamp s) ! 5 = mean_of_two (WindSpeed_1 s) (WindSpeed_2 s)"
      "get_row 7 h2 (TmStamp s) ! 6 = mean_of_two (WindDir_1 s) (WindDir_2 s)"
    by blast
  from buoy_loop_other_times [OF h2(2) assms(2)]
  obtain h3 where h3: "for_each buoy_body post h2 = Inr h3" "rows_width 7 h3"
    and v3: "get_row 7 h3 (TmStamp s) = get_row 7 h2 (TmStamp s)" by blast
  from uscg_loop_keeps [OF h3(2), of uscg_json]
  obtain h4 where h4: "for_each uscg_body uscg_json h3 = Inr h4"
    and v4: "\<And>k j. j = 1 \<or> j = 5 \<or> j = 6 \<Longrightarrow> get_row 7 h4 k ! j = get_row 7 h3 k ! j" by blast
  have "for_each buoy_body buoy_json [] = Inr h3"
    unfolding assms(1) using h1(1) h2(1) h3(1) by (simp add: for_each_append)
  then have "merge_streams buoy_json uscg_json = Inr h4"
    using h4 by (simp add: merge_streams_def)
  then show ?thesis using v2 v3 v4 [of 1] v4 [of 5] v4 [of 6] by (simp add: index_features)
qed

theorem merge_streams_average_witness:
  "\<exists>historical. merge_streams
       [\<lparr>TmStamp = 0, AirTemp_1 = Some 10, AirTemp_2 = Some 20, WindDir_1 = Some 90,
         WindDir_2 = Some 90, WindSpeed_1 = Some 3, WindSpeed_2 = Some 5\<rparr>]
       [\<lparr>TmStamp = 0, ShortWaveIn_wm2 = Some 300, ShortWaveOut_wm2 = Some 100,
         BP_mbar = Some 820, RH_percent = Some 50, LongWaveInCorr_wm2 = Some 250\<rparr>]
       = Inr historical
     \<and> get_row 7 historical 0 ! 1 = Some 15
     \<and> get_row 7 historical 0 ! 5 = Some 4
     \<and> get_row 7 historical 0 ! 6 = Some 90"
proof -
  let ?s = "\<lparr>TmStamp = 0, AirTemp_1 = Some 10, AirTemp_2 = Some 20, WindDir_1 = Some 90,
         WindDir_2 = Some 90, WindSpeed_1 = Some 3, WindSpeed_2 = Some 5\<rparr>"
  have a: "[?s] = [] @ ?s # []" by simp
  have b: "\<forall>s'\<in>set []. TmStamp s' \<noteq> TmStamp ?s" by simp
  from merge_streams_average [OF a b]
  show ?thesis by (simp add: index_features mean_of_two_def)
qed

subsection \<open>Vector decomposition\<close>

lemma getitem_Some: "map_of df f = Some x \<Longrightarrow> getitem df f = Inr x"
  by (simp add: getitem_def)

lemma map_of_setitem: "map_of (setitem df f x) g = (if g = f then Some x else map_of df g)"
  by (simp add: setitem_def update_conv')

lemma keys_setitem: "fst ` set (setitem df f x) = insert f (fst ` set df)"
  by (simp add: setitem_def dom_update)

lemma drop_column_effect:
  assumes "map_of df f = Some x"
  shows "\<exists>df'. drop_column df f = Inr df' \<and> fst ` set df' = fst ` set df - {f}
           \<and> (\<forall>g. map_of df' g = (if g = f then None else map_of df g))"
proof -
  from assms have "f \<in> fst ` set df" by (metis map_of_eq_None_iff option.distinct(1))
  then have "drop_column df f = Inr (AList.delete f df)" by (simp add: drop_column_def)
  moreover have "fst ` set (AList.delete f df) = fst ` set df - {f}"
    by (auto simp: AList.delete_eq image_iff)
  ultimately show ?thesis by (simp add: delete_conv')
qed

lemma wind_component_effect:
  assumes "map_of df ''wind direction'' = Some direction" and "map_of df ''wind speed'' = Some speed"
    and "length direction = length speed"
  shows "\<exists>c. wind_component trig df = Inr c \<and> length c = length speed
           \<and> (\<forall>i<length speed. c ! i =
                 cell_binop (\<lambda>s d. - s * trig (d * pi / 180)) (speed ! i) (direction ! i))"
proof -
  let ?c = "series_binop (\<lambda>a b. a * b)
              (map (map_option (\<lambda>d. trig (radians d) * - 1)) direction) speed"
  have "wind_component trig df = Inr ?c"
    using assms(1,2) by (simp add: wind_component_def getitem_Some)
  moreover have "length ?c = length speed" using assms(3) by (simp add: series_binop_def)
  moreover have "?c ! i = cell_binop (\<lambda>s d. - s * trig (d * pi / 180)) (speed ! i) (direction ! i)"
    if "i < length speed" for i
    using that assms(3)
    by (simp add: series_binop_def cell_binop_def radians_def split: option.splits)
  ultimately show ?thesis by blast
qed

text \<open>
C7. On a frame with the columns \<open>wind direction\<close> and \<open>wind speed\<close>, the decomposition
  returns a frame whose columns \<open>wind u\<close> and \<open>wind v\<close> hold, row by row,
  \<open>- speed * sin (direction * pi / 180)\<close> and \<open>- speed * cos (direction * pi / 180)\<close> (\<open>nan\<close>
  where an operand is); the columns \<open>wind speed\<close> and \<open>wind direction\<close> are gone and every
  other column is as before. Speed 10 gives \<open>u = 0, v = -10\<close> at direction 0 and
  \<open>u = -10, v = 0\<close> at direction 90, exactly so over the reals.
\<close>

theorem wind_decomposition:
  "(map_of df ''wind direction'' = Some direction \<and> map_of df ''wind speed'' = Some speed
      \<and> length direction = length speed \<longrightarrow>
      (\<exists>df' u v. decompose_wind df = Inr df'
         \<and> map_of df' ''wind u'' = Some u \<and> map_of df' ''wind v'' = Some v
         \<and> length u = length speed \<and> length v = length speed
         \<and> (\<forall>i<length speed.
               u ! i = cell_binop (\<lambda>s d. - s * sin (d * pi / 180)) (speed ! i) (direction ! i)
             \<and> v ! i = cell_binop (\<lambda>s d. - s * cos (d * pi / 180)) (speed ! i) (direction ! i))
         \<and> fst ` set df' = (fst ` set df \<union> {''wind u'', ''wind v''}) - {''wind speed'', ''wind direction''}
         \<and> (\<forall>f. f \<notin> {''wind u'', ''wind v'', ''wind speed'', ''wind direction''} \<longrightarrow>
               map_of df' f = map_of df f)))
   \<and> decompose_wind [(''wind speed'', [Some 10, Some 10]), (''wind direction'', [Some 0, Some 90])]
       = Inr [(''wind u'', [Some 0, Some (- 10)]), (''wind v'', [Some (- 10), Some 0])]"
proof (intro conjI impI)
  assume a: "map_of df ''wind direction'' = Some direction \<and> map_of df ''wind speed'' = Some speed
      \<and> length direction = length speed"
  then have d: "map_of df ''wind direction'' = Some direction"
    and s: "map_of df ''wind speed'' = Some speed" and l: "length direction = length speed"
    by simp_all
  from wind_component_effect [OF d s l, of sin]
  obtain u where u: "wind_component sin df = Inr u" "length u = length speed"
    and ui: "\<And>i. i < length speed \<Longrightarrow>
               u ! i = cell_binop (\<lambda>s d. - s * sin (d * pi / 180)) (speed ! i) (direction ! i)"
    by blast
  define df1 where "df1 = setitem df ''wind u'' u"
  have d1: "map_of df1 ''wind direction'' = Some direction"
    and s1: "map_of df1 ''wind speed'' = Some speed"
    using d s by (simp_all add: df1_def map_of_setitem)
  from wind_component_effect [OF d1 s1 l, of cos]
  obtain v where v: "wind_component cos df1 = Inr v" "length v = length speed"
    and vi: "\<And>i. i < length speed \<Longrightarrow>
               v ! i = cell_binop (\<lambda>s d. - s * cos (d * pi / 180)) (speed ! i) (direction ! i)"
    by blast
  define df2 where "df2 = setitem df1 ''wind v'' v"
  have d2: "map_of df2 ''wind direction'' = Some direction"
    using d1 by (simp add: df2_def map_of_setitem)
  from drop_column_effect [OF d2]
  obtain df3 where df3: "drop_column df2 ''wind direction'' = Inr df3"
    and k3: "fst ` set df3 = fst ` set df2 - {''wind direction''}"
    and m3: "\<And>g. map_of df3 g = (if g = ''wind direction'' then None else map_of df2 g)"
    by blast
  have s3: "map_of df3 ''wind speed'' = Some speed"
    using s1 by (simp add: m3 df2_def map_of_setitem)
  from drop_column_effect [OF s3]
  obtain df4 where df4: "drop_column df3 ''wind speed'' = Inr df4"
    and k4: "fst ` set df4 = fst ` set df3 - {''wind speed''}"
    and m4: "\<And>g. map_of df4 g = (if g = ''wind speed'' then None else map_of df3 g)"
    by blast
  have r: "decompose_wind df = Inr df4"
    using u(1) v(1) df3 df4 by (simp add: decompose_wind_def df1_def df2_def Let_def)
  have mu: "map_of df4 ''wind u'' = Some u" and mv: "map_of df4 ''wind v'' = Some v"
    by (simp_all add: m4 m3 df2_def df1_def map_of_setitem)
  have ks: "fst ` set df4 = (fst ` set df \<union> {''wind u'', ''wind v''}) - {''wind speed'', ''wind direction''}"
    unfolding k4 k3 df2_def df1_def keys_setitem by blast
  have other: "map_of df4 f = map_of df f"
    if "f \<notin> {''wind u'', ''wind v'', ''wind speed'', ''wind direction''}" for f
    using that by (simp add: m4 m3 df2_def df1_def map_of_setitem)
  from r mu mv u(2) v(2) ui vi ks other
  show "\<exists>df' u v. decompose_wind df = Inr df'
         \<and> map_of df' ''wind u'' = Some u \<and> map_of df' ''wind v'' = Some v
         \<and> length u = length speed \<and> length v = length speed
         \<and> (\<forall>i<length speed.
               u ! i = cell_binop (\<lambda>s d. - s * sin (d * pi / 180)) (speed ! i) (direction ! i)
             \<and> v ! i = cell_binop (\<lambda>s d. - s * cos (d * pi / 180)) (speed ! i) (direction ! i))
         \<and> fst ` set df' = (fst ` set df \<union> {''wind u'', ''wind v''}) - {''wind speed'', ''wind direction''}
         \<and> (\<forall>f. f \<notin> {''wind u'', ''wind v'', ''wind speed'', ''wind direction''} \<longrightarrow>
               map_of df' f = map_of df f)"
    by blast
next
  have r: "radians 0 = 0" "radians 90 = pi / 2" by (simp_all add: radians_def)
  show "decompose_wind [(''wind speed'', [Some 10, Some 10]), (''wind direction'', [Some 0, Some 90])]
       = Inr [(''wind u'', [Some 0, Some (- 10)]), (''wind v'', [Some (- 10), Some 0])]"
    by (simp add: decompose_wind_def wind_component_def getitem_def setitem_def drop_column_def
        series_binop_def cell_binop_def r upt_rec)
qed


theorem wind_decomposition_witness:
  "\<exists>df' u v. decompose_wind
        [(''time'', [Some 0]), (''wind speed'', [Some 5]), (''wind direction'', [Some 180])] = Inr df'
     \<and> map_of df' ''wind u'' = Some u \<and> map_of df' ''wind v'' = Some v
     \<and> u ! 0 = Some 0 \<and> v ! 0 = Some 5"
proof -
  let ?df = "[(''time'', [Some 0]), (''wind speed'', [Some 5]), (''wind direction'', [Some 180])] :: dataframe"
  have h: "map_of ?df ''wind direction'' = Some [Some 180] \<and> map_of ?df ''wind speed'' = Some [Some 5]
      \<and> length [Some 180 :: cell] = length [Some 5 :: cell]"
    by simp
  note t = wind_decomposition [of ?df "[Some 180]" "[Some 5]", THEN conjunct1, THEN mp, OF h]
  from t obtain df' u v where r: "decompose_wind ?df = Inr df'"
    "map_of df' ''wind u'' = Some u" "map_of df' ''wind v'' = Some v"
    and i: "\<forall>i<length [Some 5 :: cell].
               u ! i = cell_binop (\<lambda>s d. - s * sin (d * pi / 180)) ([Some 5] ! i) ([Some 180] ! i)
             \<and> v ! i = cell_binop (\<lambda>s d. - s * cos (d * pi / 180)) ([Some 5] ! i) ([Some 180] ! i)"
    by (elim exE conjE)
  from i have "u ! 0 = Some 0" "v ! 0 = Some 5" by (simp_all add: cell_binop_def)
  with r show ?thesis by (intro exI conjI)
qed

subsection \<open>The stages of the cleaner on a column\<close>

lemma keys_setitem_present:
  "map_of df f = Some x \<Longrightarrow> map fst (setitem df f y) = map fst df"
proof -
  assume "map_of df f = Some x"
  then have "f \<in> set (map fst df)" by (metis map_of_eq_None_iff option.distinct(1) set_map)
  then show ?thesis by (simp add: setitem_def update_keys)
qed

lemma column_op_effect:
  assumes "map_of df f = Some x" and "g x = Inr y"
  shows "column_op g f df = Inr (setitem df f y)"
  using assms by (simp add: column_op_def getitem_def)

lemma for_each_column_ops:
  fixes key :: "'a \<Rightarrow> string" and skip :: "'a \<Rightarrow> bool" and op :: "'a \<Rightarrow> series \<Rightarrow> error + series"
  assumes body: "\<And>a df. body a df = (if skip a then Inr df else column_op (op a) (key a) df)"
    and "distinct (map key items)"
    and "\<forall>a\<in>set items. \<not> skip a \<longrightarrow> (\<exists>x y. map_of df (key a) = Some x \<and> op a x = Inr y)"
  shows "\<exists>df'. for_each body items df = Inr df' \<and> map fst df' = map fst df
           \<and> (\<forall>a\<in>set items. \<not> skip a \<longrightarrow>
                 (\<forall>x. map_of df (key a) = Some x \<longrightarrow>
                    (\<exists>y. op a x = Inr y \<and> map_of df' (key a) = Some y)))
           \<and> (\<forall>f. (\<forall>a\<in>set items. skip a \<or> key a \<noteq> f) \<longrightarrow> map_of df' f = map_of df f)"
  using assms(2,3)
proof (induction items arbitrary: df)
  case Nil
  then show ?case by simp
next
  case (Cons a items)
  from Cons.prems(1) have dist: "distinct (map key items)" and fresh: "key a \<notin> key ` set items"
    by simp_all
  have fresh': "key b \<noteq> key a" if "b \<in> set items" for b
    using fresh that by (metis imageI)
  show ?case
  proof (cases "skip a")
    case True
    have rest: "\<forall>b\<in>set items. \<not> skip b \<longrightarrow> (\<exists>x y. map_of df (key b) = Some x \<and> op b x = Inr y)"
      using Cons.prems(2) by simp
    from Cons.IH [OF dist rest]
    obtain df' where r: "for_each body items df = Inr df'" "map fst df' = map fst df"
      and v: "\<And>b x. b \<in> set items \<Longrightarrow> \<not> skip b \<Longrightarrow> map_of df (key b) = Some x \<Longrightarrow>
                (\<exists>y. op b x = Inr y \<and> map_of df' (key b) = Some y)"
      and o: "\<And>f. (\<forall>b\<in>set items. skip b \<or> key b \<noteq> f) \<Longrightarrow> map_of df' f = map_of df f"
      by blast
    have "for_each body (a # items) df = Inr df'" using True r(1) by (simp add: body)
    moreover have "\<exists>y. op b x = Inr y \<and> map_of df' (key b) = Some y"
      if "b \<in> set (a # items)" "\<not> skip b" "map_of df (key b) = Some x" for b x
      using that True v [of b x] by auto
    moreover have "map_of df' f = map_of df f"
      if "\<forall>b\<in>set (a # items). skip b \<or> key b \<noteq> f" for f
      using that o [of f] by simp
    ultimately show ?thesis using r(2) by blast
  next
    case False
    with Cons.prems(2) obtain x y where x: "map_of df (key a) = Some x" and y: "op a x = Inr y"
      by auto
    define df1 where "df1 = setitem df (key a) y"
    have b1: "body a df = Inr df1"
      using False column_op_effect [of df "key a" x "op a" y] x y by (simp add: body df1_def)
    have k1: "map fst df1 = map fst df" unfolding df1_def using x by (rule keys_setitem_present)
    have m1: "map_of df1 f = (if f = key a then Some y else map_of df f)" for f
      by (simp add: df1_def map_of_setitem)
    have rest: "\<forall>b\<in>set items. \<not> skip b \<longrightarrow> (\<exists>x y. map_of df1 (key b) = Some x \<and> op b x = Inr y)"
    proof (intro ballI impI)
      fix b assume b: "b \<in> set items" "\<not> skip b"
      then have "key b \<noteq> key a" by (simp add: fresh')
      with Cons.prems(2) b show "\<exists>x y. map_of df1 (key b) = Some x \<and> op b x = Inr y"
        by (simp add: m1)
    qed
    from Cons.IH [OF dist rest]
    obtain df' where r: "for_each body items df1 = Inr df'" "map fst df' = map fst df1"
      and v: "\<And>b x. b \<in> set items \<Longrightarrow> \<not> skip b \<Longrightarrow> map_of df1 (key b) = Some x \<Longrightarrow>
                (\<exists>y. op b x = Inr y \<and> map_of df' (key b) = Some y)"
      and o: "\<And>f. (\<forall>b\<in>set items. skip b \<or> key b \<noteq> f) \<Longrightarrow> map_of df' f = map_of df1 f"
      by blast
    have "for_each body (a # items) df = Inr df'" using b1 r(1) by simp
    moreover have "map fst df' = map fst df" using r(2) k1 by simp
    moreover have "\<exists>y. op b x' = Inr y \<and> map_of df' (key b) = Some y"
      if "b \<in> set (a # items)" "\<not> skip b" "map_of df (key b) = Some x'" for b x'
    proof (cases "b = a")
      case True
      have "\<forall>b\<in>set items. skip b \<or> key b \<noteq> key a" by (simp add: fresh')
      from o [OF this] have "map_of df' (key a) = Some y" by (simp add: m1)
      with that(3) x y True show ?thesis by simp
    next
      case False
      with that(1) have b: "b \<in> set items" by simp
      then have "key b \<noteq> key a" by (simp add: fresh')
      with that(3) have "map_of df1 (key b) = Some x'" by (simp add: m1)
      from v [OF b that(2) this] show ?thesis .
    qed
    moreover have "map_of df' f = map_of df f"
      if "\<forall>b\<in>set (a # items). skip b \<or> key b \<noteq> f" for f
    proof -
      from that False have "key a \<noteq> f" "\<forall>b\<in>set items. skip b \<or> key b \<noteq> f" by auto
      with o [of f] show ?thesis by (simp add: m1)
    qed
    ultimately show ?thesis by blast
  qed
qed

lemma length_rolling: "length (rolling w f x) = length x"
  by (simp add: rolling_def)

lemma length_series_binop: "length (series_binop f a b) = max (length a) (length b)"
  by (simp add: series_binop_def)

lemma nth_series_binop:
  "i < length a \<Longrightarrow> i < length b \<Longrightarrow> series_binop f a b ! i = cell_binop f (a ! i) (b ! i)"
  by (simp add: series_binop_def)

lemma length_series_where:
  "length c = length x \<Longrightarrow> length other = length x \<Longrightarrow> length (series_where x c other) = length x"
  by (simp add: series_where_def)

lemma nth_series_where:
  "length c = length x \<Longrightarrow> length other = length x \<Longrightarrow> i < length x \<Longrightarrow>
     series_where x c other ! i = (if c ! i then x ! i else other ! i)"
  by (simp add: series_where_def)

lemma series_lt_effect:
  "length a = length b \<Longrightarrow>
     \<exists>c. series_lt a b = Inr c \<and> length c = length b \<and> (\<forall>i<length b. c ! i = cell_lt (a ! i) (b ! i))"
  by (simp add: series_lt_def)

lemma sigma_repair_effect:
  assumes "x \<noteq> []"
  shows "\<exists>y. sigma_repair x = Inr y \<and> length y = length x
           \<and> (\<forall>i<length x. y ! i =
                 (if cell_lt (band_lo x i) (x ! i) \<and> cell_lt (x ! i) (band_hi x i) then x ! i
                  else sigma_mean x i))"
proof -
  define m where "m = rolling 100 roll_mean x"
  define sd where "sd = setitem0 (rolling 100 roll_std x) (Some 0)"
  define lo where "lo = series_binop (\<lambda>a b. a - b) m (series_scale 3 sd)"
  define hi where "hi = series_binop (\<lambda>a b. a + b) m (series_scale 3 sd)"
  have lm: "length m = length x" by (simp add: m_def length_rolling)
  have ne: "rolling 100 roll_std x \<noteq> []"
    using assms length_rolling [of 100 roll_std x] by (metis length_0_conv)
  have sd: "sd = (rolling 100 roll_std x)[0 := Some 0]" using ne by (simp add: sd_def setitem0_def)
  have ls: "length sd = length x" by (simp add: sd length_rolling)
  have sdi: "sd ! i = sigma_std x i" if "i < length x" for i
    using that by (cases i) (simp_all add: sd sigma_std_def length_rolling)
  have llo: "length lo = length x" and lhi: "length hi = length x"
    by (simp_all add: lo_def hi_def length_series_binop lm ls series_scale_def)
  have loi: "lo ! i = band_lo x i" and hii: "hi ! i = band_hi x i" if "i < length x" for i
    using that sdi [OF that]
    by (simp_all add: lo_def hi_def nth_series_binop lm ls series_scale_def band_lo_def band_hi_def
        sigma_mean_def m_def [symmetric] cell_binop_def split: option.splits)
  from series_lt_effect [of lo x] llo
  obtain c1 where c1: "series_lt lo x = Inr c1" "length c1 = length x"
    and c1i: "\<And>i. i < length x \<Longrightarrow> c1 ! i = cell_lt (lo ! i) (x ! i)" by auto
  define x1 where "x1 = series_where x c1 m"
  have lx1: "length x1 = length x" by (simp add: x1_def length_series_where c1(2) lm)
  have x1i: "x1 ! i = (if c1 ! i then x ! i else m ! i)" if "i < length x" for i
    using that by (simp add: x1_def nth_series_where c1(2) lm)
  from series_lt_effect [of x1 hi] lx1 lhi
  obtain c2 where c2: "series_lt x1 hi = Inr c2" "length c2 = length x"
    and c2i: "\<And>i. i < length x \<Longrightarrow> c2 ! i = cell_lt (x1 ! i) (hi ! i)" by auto
  define y where "y = series_where x1 c2 m"
  have r: "sigma_repair x = Inr y"
    unfolding sigma_repair_def Let_def m_def [symmetric] sd_def [symmetric]
      lo_def [symmetric] hi_def [symmetric]
    by (simp add: c1(1) x1_def [symmetric] c2(1) y_def)
  have ly: "length y = length x" by (simp add: y_def length_series_where c2(2) lm lx1)
  have "y ! i = (if cell_lt (band_lo x i) (x ! i) \<and> cell_lt (x ! i) (band_hi x i) then x ! i
                  else sigma_mean x i)" if "i < length x" for i
  proof -
    have "y ! i = (if c2 ! i then x1 ! i else m ! i)"
      using that by (simp add: y_def nth_series_where c2(2) lm lx1)
    then show ?thesis
      using that by (simp add: c2i c1i x1i loi hii sigma_mean_def m_def)
  qed
  with r ly show ?thesis by blast
qed

lemma stuck_repair_effect:
  "\<exists>y. stuck_repair lo hi x = Inr y \<and> length y = length x
     \<and> (\<forall>i<length x. y ! i =
           (if x ! i = Some lo \<or> x ! i = Some hi then rolling 100 roll_mean x ! i else x ! i))"
proof -
  define m where "m = rolling 100 roll_mean x"
  define x1 where "x1 = series_where x (series_ne x hi) m"
  define y where "y = series_where x1 (series_ne x1 lo) m"
  have lm: "length m = length x" by (simp add: m_def length_rolling)
  have lx1: "length x1 = length x" by (simp add: x1_def length_series_where series_ne_def lm)
  have x1i: "x1 ! i = (if cell_ne (x ! i) hi then x ! i else m ! i)" if "i < length x" for i
    using that by (simp add: x1_def nth_series_where series_ne_def lm)
  have r: "stuck_repair lo hi x = Inr y"
    by (simp add: stuck_repair_def Let_def m_def x1_def y_def)
  have ly: "length y = length x" by (simp add: y_def length_series_where series_ne_def lm lx1)
  have "y ! i = (if x ! i = Some lo \<or> x ! i = Some hi then m ! i else x ! i)"
    if "i < length x" for i
  proof -
    have "y ! i = (if cell_ne (x1 ! i) lo then x1 ! i else m ! i)"
      using that by (simp add: y_def nth_series_where series_ne_def lm lx1)
    then show ?thesis
      using that by (auto simp: x1i cell_ne_def split: option.splits)
  qed
  with r ly show ?thesis unfolding m_def by blast
qed

lemma window_short:
  "length x \<le> 50 \<Longrightarrow> i < length x \<Longrightarrow> window 100 x i = List.map_filter (\<lambda>c. c) x"
  by (simp add: window_def Let_def min_def)

lemma rolling_mean_example: "rolling 100 roll_mean [Some 1, Some 2, Some 3] = [Some 2, Some 2, Some 2]"
  by (simp add: rolling_def window_short upt_rec map_filter_simps roll_mean_def mean_def)

lemma rolling_std_example: "rolling 100 roll_std [Some 1, Some 2, Some 3] = [Some 1, Some 1, Some 1]"
  by (simp add: rolling_def window_short upt_rec map_filter_simps roll_std_def mean_def power2_eq_square)

subsection \<open>Rolling 3-sigma repair\<close>

lemma cell_lt_asym: "cell_lt a b \<Longrightarrow> \<not> cell_lt b a"
  by (auto simp: cell_lt_def split: option.splits)

lemma sigma_body_form:
  "sigma_body f df = (if f = ''time'' then Inr df else column_op sigma_repair f df)"
  by (simp add: sigma_body_def)

text \<open>
  C3. On a frame with distinct column names and no empty feature column, the third
  stage returns; it keeps the column names and the column \<open>time\<close>; and in every other
  column the cell at a position is kept when it lies strictly between the two bounds of
  the band of that position, and is the rolling mean otherwise. So every value outside
  \<open>[mean - 3 std, mean + 3 std]\<close> is replaced by the rolling mean (and so is a value on a
  bound, or a \<open>nan\<close>). The band is computed once from the column as the stage finds it:
  both passes of \<open>sigma_repair\<close> use it.
\<close>

theorem sigma_stage_repairs:
  assumes "distinct (map fst df)" and "\<forall>c\<in>set df. fst c \<noteq> ''time'' \<longrightarrow> snd c \<noteq> []"
  shows "\<exists>df'. sigma_stage df = Inr df' \<and> map fst df' = map fst df
           \<and> map_of df' ''time'' = map_of df ''time''
           \<and> (\<forall>c\<in>set df. fst c \<noteq> ''time'' \<longrightarrow>
                 (\<exists>y. map_of df' (fst c) = Some y \<and> length y = length (snd c)
                    \<and> (\<forall>i<length (snd c).
                          y ! i = (if cell_lt (band_lo (snd c) i) (snd c ! i)
                                      \<and> cell_lt (snd c ! i) (band_hi (snd c) i)
                                   then snd c ! i else sigma_mean (snd c) i)
                        \<and> (cell_lt (snd c ! i) (band_lo (snd c) i)
                             \<or> cell_lt (band_hi (snd c) i) (snd c ! i) \<longrightarrow>
                           y ! i = sigma_mean (snd c) i))))"
proof -
  have col: "map_of df (fst c) = Some (snd c)" if "c \<in> set df" for c
    using assms(1) that by (intro map_of_is_SomeI) simp_all
  have d: "distinct (map (\<lambda>f. f) (map fst df))" using assms(1) by simp
  have pre: "\<forall>f\<in>set (map fst df). \<not> f = ''time'' \<longrightarrow>
               (\<exists>x y. map_of df f = Some x \<and> sigma_repair x = Inr y)"
  proof (intro ballI impI)
    fix f assume "f \<in> set (map fst df)" "\<not> f = ''time''"
    then obtain c where c: "c \<in> set df" "fst c = f" by auto
    with \<open>\<not> f = ''time''\<close> assms(2) have "snd c \<noteq> []" by auto
    from sigma_repair_effect [OF this] col [OF c(1)] c(2)
    show "\<exists>x y. map_of df f = Some x \<and> sigma_repair x = Inr y" by auto
  qed
  from for_each_column_ops [of sigma_body "\<lambda>f. f = ''time''" "\<lambda>f. sigma_repair" "\<lambda>f. f",
      OF sigma_body_form d pre]
  obtain df' where r: "for_each sigma_body (map fst df) df = Inr df'" "map fst df' = map fst df"
    and v0: "\<forall>f\<in>set (map fst df). \<not> f = ''time'' \<longrightarrow>
              (\<forall>x. map_of df f = Some x \<longrightarrow> (\<exists>y. sigma_repair x = Inr y \<and> map_of df' f = Some y))"
    and o0: "\<forall>f. (\<forall>a\<in>set (map fst df). a = ''time'' \<or> a \<noteq> f) \<longrightarrow> map_of df' f = map_of df f"
    by (elim exE conjE)
  note v = v0 [rule_format] and o = o0 [rule_format]
  have t: "map_of df' ''time'' = map_of df ''time''" by (rule o) simp
  have "\<exists>y. map_of df' (fst c) = Some y \<and> length y = length (snd c)
          \<and> (\<forall>i<length (snd c).
                y ! i = (if cell_lt (band_lo (snd c) i) (snd c ! i)
                            \<and> cell_lt (snd c ! i) (band_hi (snd c) i)
                         then snd c ! i else sigma_mean (snd c) i)
              \<and> (cell_lt (snd c ! i) (band_lo (snd c) i)
                   \<or> cell_lt (band_hi (snd c) i) (snd c ! i) \<longrightarrow>
                 y ! i = sigma_mean (snd c) i))"
    if c: "c \<in> set df" "fst c \<noteq> ''time''" for c
  proof -
    from c(1) have "fst c \<in> set (map fst df)" by simp
    from v [OF this c(2) col [OF c(1)]]
    obtain y where y: "sigma_repair (snd c) = Inr y" "map_of df' (fst c) = Some y" by blast
    from c assms(2) have "snd c \<noteq> []" by auto
    from sigma_repair_effect [OF this] y(1)
    have ly: "length y = length (snd c)"
      and yi: "\<And>i. i < length (snd c) \<Longrightarrow>
                 y ! i = (if cell_lt (band_lo (snd c) i) (snd c ! i)
                             \<and> cell_lt (snd c ! i) (band_hi (snd c) i)
                          then snd c ! i else sigma_mean (snd c) i)"
      by auto
    have "y ! i = sigma_mean (snd c) i"
      if "i < length (snd c)"
        "cell_lt (snd c ! i) (band_lo (snd c) i) \<or> cell_lt (band_hi (snd c) i) (snd c ! i)" for i
      using yi [OF that(1)] that(2) cell_lt_asym by auto
    with y(2) ly yi show ?thesis by (intro exI [of _ y]) simp
  qed
  then have "\<forall>c\<in>set df. fst c \<noteq> ''time'' \<longrightarrow>
                 (\<exists>y. map_of df' (fst c) = Some y \<and> length y = length (snd c)
                    \<and> (\<forall>i<length (snd c).
                          y ! i = (if cell_lt (band_lo (snd c) i) (snd c ! i)
                                      \<and> cell_lt (snd c ! i) (band_hi (snd c) i)
                                   then snd c ! i else sigma_mean (snd c) i)
                        \<and> (cell_lt (snd c ! i) (band_lo (snd c) i)
                             \<or> cell_lt (band_hi (snd c) i) (snd c ! i) \<longrightarrow>
                           y ! i = sigma_mean (snd c) i)))"
    by (intro ballI impI)
  with r t show ?thesis unfolding sigma_stage_def by (intro exI [of _ df'] conjI)
qed

theorem sigma_stage_repairs_witness:
  "\<exists>df'. sigma_stage [(''time'', [Some 0, Some 1, Some 2]), (''air temp'', [Some 1, Some 2, Some 3])]
       = Inr df'
     \<and> map_of df' ''time'' = Some [Some 0, Some 1, Some 2]
     \<and> map_of df' ''air temp'' = Some [Some 2, Some 2, Some 3]"
proof -
  let ?x = "[Some 1, Some 2, Some 3] :: series"
  let ?df = "[(''time'', [Some 0, Some 1, Some 2]), (''air temp'', ?x)] :: dataframe"
  have d: "distinct (map fst ?df)" by simp
  have n: "\<forall>c\<in>set ?df. fst c \<noteq> ''time'' \<longrightarrow> snd c \<noteq> []" by simp
  from sigma_stage_repairs [OF d n]
  obtain df' where r: "sigma_stage ?df = Inr df'" "map_of df' ''time'' = map_of ?df ''time''"
    and v: "\<forall>c\<in>set ?df. fst c \<noteq> ''time'' \<longrightarrow>
                 (\<exists>y. map_of df' (fst c) = Some y \<and> length y = length (snd c)
                    \<and> (\<forall>i<length (snd c).
                          y ! i = (if cell_lt (band_lo (snd c) i) (snd c ! i)
                                      \<and> cell_lt (snd c ! i) (band_hi (snd c) i)
                                   then snd c ! i else sigma_mean (snd c) i)
                        \<and> (cell_lt (snd c ! i) (band_lo (snd c) i)
                             \<or> cell_lt (band_hi (snd c) i) (snd c ! i) \<longrightarrow>
                           y ! i = sigma_mean (snd c) i)))"
    by (elim exE conjE)
  from v [rule_format, of "(''air temp'', ?x)"]
  obtain y where y: "map_of df' ''air temp'' = Some y" "length y = 3"
    and yi: "\<And>i. i < 3 \<Longrightarrow> y ! i = (if cell_lt (band_lo ?x i) (?x ! i) \<and> cell_lt (?x ! i) (band_hi ?x i)
                                   then ?x ! i else sigma_mean ?x i)"
    by auto
  have b: "sigma_mean ?x 0 = Some 2" "sigma_mean ?x (Suc 0) = Some 2" "sigma_mean ?x 2 = Some 2"
    "sigma_std ?x 0 = Some 0" "sigma_std ?x (Suc 0) = Some 1" "sigma_std ?x 2 = Some 1"
    by (simp_all add: sigma_mean_def sigma_std_def rolling_mean_example rolling_std_example)
  have "y ! 0 = Some 2" "y ! Suc 0 = Some 2" "y ! 2 = Some 3"
    using yi [of 0] yi [of "Suc 0"] yi [of 2]
    by (simp_all add: band_lo_def band_hi_def b cell_binop_def cell_lt_def)
  with y(2) have "y = [Some 2, Some 2, Some 3]"
    by (intro nth_equalityI) (auto simp: less_Suc_eq numeral_3_eq_3 numeral_2_eq_2)
  with r y(1) show ?thesis by simp
qed

subsection \<open>Bound-stuck repair\<close>

lemma stuck_body_form:
  "stuck_body b df =
     (if fst b = ''shortwave'' then Inr df
      else column_op (stuck_repair (fst (snd b)) (snd (snd b))) (fst b) df)"
  by (cases b) (simp add: stuck_body_def)

lemma distinct_ATTR_BOUNDS: "distinct (map fst ATTR_BOUNDS)"
  by (simp add: ATTR_BOUNDS_def)

text \<open>
  C4. On a frame that has the features of \<open>ATTR_BOUNDS\<close>, the fourth stage returns; it
  keeps the column names; the column \<open>shortwave\<close> is unchanged; and in the column of every
  other feature of \<open>ATTR_BOUNDS\<close> a cell equal to the lower or the upper bound of the
  feature is replaced by the centered rolling mean (window 100) of the column at its
  position, every other cell being kept.
\<close>

theorem stuck_stage_repairs:
  assumes "\<forall>b\<in>set ATTR_BOUNDS. fst b \<noteq> ''shortwave'' \<longrightarrow> fst b \<in> fst ` set df"
  shows "\<exists>df'. stuck_stage df = Inr df' \<and> map fst df' = map fst df
           \<and> map_of df' ''shortwave'' = map_of df ''shortwave''
           \<and> (\<forall>b\<in>set ATTR_BOUNDS. fst b \<noteq> ''shortwave'' \<longrightarrow>
                 (\<forall>x. map_of df (fst b) = Some x \<longrightarrow>
                    (\<exists>y. map_of df' (fst b) = Some y \<and> length y = length x
                       \<and> (\<forall>i<length x. y ! i =
                             (if x ! i = Some (fst (snd b)) \<or> x ! i = Some (snd (snd b))
                              then rolling 100 roll_mean x ! i else x ! i)))))"
proof -
  have pre: "\<forall>b\<in>set ATTR_BOUNDS. \<not> fst b = ''shortwave'' \<longrightarrow>
               (\<exists>x y. map_of df (fst b) = Some x \<and> stuck_repair (fst (snd b)) (snd (snd b)) x = Inr y)"
  proof (intro ballI impI)
    fix b assume "b \<in> set ATTR_BOUNDS" "\<not> fst b = ''shortwave''"
    with assms have "fst b \<in> fst ` set df" by simp
    then obtain x where x: "map_of df (fst b) = Some x"
      by (metis map_of_eq_None_iff not_Some_eq)
    from stuck_repair_effect [of "fst (snd b)" "snd (snd b)" x] x
    show "\<exists>x y. map_of df (fst b) = Some x \<and> stuck_repair (fst (snd b)) (snd (snd b)) x = Inr y"
      by auto
  qed
  from for_each_column_ops [of stuck_body "\<lambda>b. fst b = ''shortwave''"
      "\<lambda>b. stuck_repair (fst (snd b)) (snd (snd b))" fst, OF stuck_body_form distinct_ATTR_BOUNDS pre]
  obtain df' where r: "for_each stuck_body ATTR_BOUNDS df = Inr df'" "map fst df' = map fst df"
    and v0: "\<forall>b\<in>set ATTR_BOUNDS. \<not> fst b = ''shortwave'' \<longrightarrow>
              (\<forall>x. map_of df (fst b) = Some x \<longrightarrow>
                 (\<exists>y. stuck_repair (fst (snd b)) (snd (snd b)) x = Inr y \<and> map_of df' (fst b) = Some y))"
    and o0: "\<forall>f. (\<forall>b\<in>set ATTR_BOUNDS. fst b = ''shortwave'' \<or> fst b \<noteq> f) \<longrightarrow> map_of df' f = map_of df f"
    by (elim exE conjE)
  note v = v0 [rule_format] and o = o0 [rule_format]
  have t: "map_of df' ''shortwave'' = map_of df ''shortwave''" by (rule o) simp
  have "\<exists>y. map_of df' (fst b) = Some y \<and> length y = length x
          \<and> (\<forall>i<length x. y ! i =
                (if x ! i = Some (fst (snd b)) \<or> x ! i = Some (snd (snd b))
                 then rolling 100 roll_mean x ! i else x ! i))"
    if b: "b \<in> set ATTR_BOUNDS" "fst b \<noteq> ''shortwave''" and x: "map_of df (fst b) = Some x" for b x
  proof -
    from v [OF b x]
    obtain y where y: "stuck_repair (fst (snd b)) (snd (snd b)) x = Inr y" "map_of df' (fst b) = Some y"
      by (elim exE conjE)
    from stuck_repair_effect [of "fst (snd b)" "snd (snd b)" x] y(1)
    have "length y = length x \<and> (\<forall>i<length x. y ! i =
                (if x ! i = Some (fst (snd b)) \<or> x ! i = Some (snd (snd b))
                 then rolling 100 roll_mean x ! i else x ! i))"
      by auto
    with y(2) show ?thesis by (intro exI [of _ y]) simp
  qed
  then have "\<forall>b\<in>set ATTR_BOUNDS. fst b \<noteq> ''shortwave'' \<longrightarrow>
                 (\<forall>x. map_of df (fst b) = Some x \<longrightarrow>
                    (\<exists>y. map_of df' (fst b) = Some y \<and> length y = length x
                       \<and> (\<forall>i<length x. y ! i =
                             (if x ! i = Some (fst (snd b)) \<or> x ! i = Some (snd (snd b))
                              then rolling 100 roll_mean x ! i else x ! i))))"
    by (intro ballI impI allI)
  with r t show ?thesis unfolding stuck_stage_def by (intro exI [of _ df'] conjI)
qed

theorem stuck_stage_repairs_witness:
  "\<exists>df'. stuck_stage
       [(''time'', [Some 0, Some 1, Some 2]),
        (''shortwave'', [Some 0, Some 0, Some 1300]),
        (''air temp'', [Some (- 20), Some 10, Some 40]),
        (''atmospheric pressure'', [Some 82000, Some 82000, Some 82000]),
        (''relative humidity'', [Some (1 / 2), Some (1 / 2), Some (1 / 2)]),
        (''longwave'', [Some 300, Some 300, Some 300]),
        (''wind speed'', [Some 3, Some 3, Some 3]),
        (''wind direction'', [Some 90, Some 90, Some 90])] = Inr df'
     \<and> map_of df' ''shortwave'' = Some [Some 0, Some 0, Some 1300]
     \<and> map_of df' ''air temp'' = Some [Some 10, Some 10, Some 40]"
proof -
  let ?x = "[Some (- 20), Some 10, Some 40] :: series"
  let ?df = "[(''time'', [Some 0, Some 1, Some 2]),
        (''shortwave'', [Some 0, Some 0, Some 1300]),
        (''air temp'', ?x),
        (''atmospheric pressure'', [Some 82000, Some 82000, Some 82000]),
        (''relative humidity'', [Some (1 / 2), Some (1 / 2), Some (1 / 2)]),
        (''longwave'', [Some 300, Some 300, Some 300]),
        (''wind speed'', [Some 3, Some 3, Some 3]),
        (''wind direction'', [Some 90, Some 90, Some 90])] :: dataframe"
  have h: "\<forall>b\<in>set ATTR_BOUNDS. fst b \<noteq> ''shortwave'' \<longrightarrow> fst b \<in> fst ` set ?df"
    by (simp add: ATTR_BOUNDS_def)
  from stuck_stage_repairs [OF h]
  obtain df' where r: "stuck_stage ?df = Inr df'" "map_of df' ''shortwave'' = map_of ?df ''shortwave''"
    and v: "\<forall>b\<in>set ATTR_BOUNDS. fst b \<noteq> ''shortwave'' \<longrightarrow>
                 (\<forall>x. map_of ?df (fst b) = Some x \<longrightarrow>
                    (\<exists>y. map_of df' (fst b) = Some y \<and> length y = length x
                       \<and> (\<forall>i<length x. y ! i =
                             (if x ! i = Some (fst (snd b)) \<or> x ! i = Some (snd (snd b))
                              then rolling 100 roll_mean x ! i else x ! i))))"
    by (elim exE conjE)
  let ?b = "(''air temp'', - 20, 70) :: string \<times> real \<times> real"
  have b: "?b \<in> set ATTR_BOUNDS" by (simp add: ATTR_BOUNDS_def)
  have n: "fst ?b \<noteq> ''shortwave''" by simp
  have m: "map_of ?df (fst ?b) = Some ?x" by simp
  from v [rule_format, OF b n m]
  obtain y where y: "map_of df' ''air temp'' = Some y" "length y = 3"
    and yi: "\<And>i. i < 3 \<Longrightarrow> y ! i = (if ?x ! i = Some (- 20) \<or> ?x ! i = Some 70
                              then rolling 100 roll_mean ?x ! i else ?x ! i)"
    by auto
  have e: "rolling 100 roll_mean ?x = [Some 10, Some 10, Some 10]"
    by (simp add: rolling_def window_short upt_rec map_filter_simps roll_mean_def mean_def)
  have "y ! 0 = Some 10" "y ! Suc 0 = Some 10" "y ! 2 = Some 40"
    using yi [of 0] yi [of "Suc 0"] yi [of 2] by (simp_all add: e)
  with y(2) have "y = [Some 10, Some 10, Some 40]"
    by (intro nth_equalityI) (auto simp: less_Suc_eq numeral_3_eq_3 numeral_2_eq_2)
  with r y(1) show ?thesis by simp
qed

subsection \<open>The frame of the cleaner\<close>

lemma same_frame_refl: "same_frame df df"
  by (simp add: same_frame_def)

lemma same_frame_trans: "same_frame a b \<Longrightarrow> same_frame b c \<Longrightarrow> same_frame a c"
  by (simp add: same_frame_def)

lemma lengths_update:
  "map_of df f = Some x \<Longrightarrow> length y = length x \<Longrightarrow>
     map (\<lambda>c. length (snd c)) (AList.update f y df) = map (\<lambda>c. length (snd c)) df"
  by (induction df) (auto split: if_splits)

lemma column_op_frame:
  assumes "column_op g f df = Inr df'" and "f \<noteq> ''time''"
    and "\<And>x y. g x = Inr y \<Longrightarrow> length y = length x"
  shows "same_frame df df'"
proof -
  from assms(1) obtain x y where x: "map_of df f = Some x" and y: "g x = Inr y"
    and d: "df' = setitem df f y"
    by (auto simp: column_op_def getitem_def split: option.splits sum.splits)
  have "map fst df' = map fst df" unfolding d using x by (rule keys_setitem_present)
  moreover have "map_of df' ''time'' = map_of df ''time''"
    using assms(2) by (simp add: d map_of_setitem)
  moreover have "map (\<lambda>c. length (snd c)) df' = map (\<lambda>c. length (snd c)) df"
    unfolding d setitem_def using x assms(3) [OF y] by (rule lengths_update)
  ultimately show ?thesis by (simp add: same_frame_def)
qed

lemma for_each_frame:
  assumes "\<And>a s s'. a \<in> set items \<Longrightarrow> body a s = Inr s' \<Longrightarrow> same_frame s s'"
    and "for_each body items df = Inr df'"
  shows "same_frame df df'"
  using assms
proof (induction items arbitrary: df)
  case Nil
  then show ?case by (simp add: same_frame_refl)
next
  case (Cons a items)
  from Cons.prems(2) obtain df1 where b: "body a df = Inr df1" and r: "for_each body items df1 = Inr df'"
    by (auto split: sum.splits)
  have "same_frame df df1" using b by (intro Cons.prems(1) [of a]) simp_all
  moreover have "same_frame df1 df'" using r by (intro Cons.IH) (auto intro: Cons.prems(1))
  ultimately show ?case by (rule same_frame_trans)
qed

lemma length_median_filter: "median_filter x = Inr y \<Longrightarrow> length y = length x"
  by (auto simp: median_filter_def length_rolling)

lemma length_clip: "clip lo hi x = Inr y \<Longrightarrow> length y = length x"
  by (auto simp: clip_def)

lemma length_sigma_repair: "sigma_repair x = Inr y \<Longrightarrow> length y = length x"
proof (cases "x = []")
  case True
  then have "sigma_repair x = Inl ValueError"
    by (simp add: sigma_repair_def rolling_def setitem0_def series_binop_def series_scale_def
        series_lt_def)
  then show "sigma_repair x = Inr y \<Longrightarrow> length y = length x" by simp
next
  case False
  from sigma_repair_effect [OF this] show "sigma_repair x = Inr y \<Longrightarrow> length y = length x"
    by auto
qed

lemma length_stuck_repair: "stuck_repair lo hi x = Inr y \<Longrightarrow> length y = length x"
  using stuck_repair_effect [of lo hi x] by auto

lemma time_not_in_ATTR_BOUNDS: "b \<in> set ATTR_BOUNDS \<Longrightarrow> fst b \<noteq> ''time''"
  by (auto simp: ATTR_BOUNDS_def)

lemma median_filtering_frame: "median_filtering df = Inr df' \<Longrightarrow> same_frame df df'"
  unfolding median_filtering_def
  by (erule for_each_frame [rotated])
    (auto simp: median_body_def same_frame_refl split: if_splits
      intro: column_op_frame length_median_filter)

lemma clip_stage_frame: "clip_stage df = Inr df' \<Longrightarrow> same_frame df df'"
  unfolding clip_stage_def
proof (erule for_each_frame [rotated])
  fix b s s' assume b: "b \<in> set ATTR_BOUNDS" and r: "clip_body b s = Inr s'"
  obtain f lo hi where f: "b = (f, lo, hi)" by (cases b)
  from b have t: "f \<noteq> ''time''" using time_not_in_ATTR_BOUNDS [of b] by (simp add: f)
  from r have "column_op (clip lo hi) f s = Inr s'" by (simp add: clip_body_def f)
  then show "same_frame s s'" using t by (rule column_op_frame) (rule length_clip)
qed

lemma sigma_stage_frame: "sigma_stage df = Inr df' \<Longrightarrow> same_frame df df'"
  unfolding sigma_stage_def
  by (erule for_each_frame [rotated])
    (auto simp: sigma_body_def same_frame_refl split: if_splits
      intro: column_op_frame length_sigma_repair)

lemma stuck_stage_frame: "stuck_stage df = Inr df' \<Longrightarrow> same_frame df df'"
  unfolding stuck_stage_def
proof (erule for_each_frame [rotated])
  fix b s s' assume b: "b \<in> set ATTR_BOUNDS" and r: "stuck_body b s = Inr s'"
  obtain f lo hi where f: "b = (f, lo, hi)" by (cases b)
  from b have t: "f \<noteq> ''time''" using time_not_in_ATTR_BOUNDS [of b] by (simp add: f)
  show "same_frame s s'"
  proof (cases "f = ''shortwave''")
    case True
    with r show ?thesis by (simp add: stuck_body_def f same_frame_refl)
  next
    case False
    with r have "column_op (stuck_repair lo hi) f s = Inr s'" by (simp add: stuck_body_def f)
    then show ?thesis using t by (rule column_op_frame) (rule length_stuck_repair)
  qed
qed

lemma remove_outliers_frame:
  assumes "remove_outliers df = Inr df'"
  shows "same_frame df df'"
proof -
  from assms obtain df1 df2 df3 df4 where s: "median_filtering df = Inr df1"
    "clip_stage df1 = Inr df2" "sigma_stage df2 = Inr df3" "stuck_stage df3 = Inr df4"
    "median_filtering df4 = Inr df'"
    by (auto simp: remove_outliers_def split: sum.splits)
  from median_filtering_frame [OF s(1)] clip_stage_frame [OF s(2)] sigma_stage_frame [OF s(3)]
    stuck_stage_frame [OF s(4)] median_filtering_frame [OF s(5)]
  show ?thesis by (blast intro: same_frame_trans)
qed

lemma cleanable_same_frame:
  assumes "same_frame df df'" and "cleanable df"
  shows "cleanable df'"
proof -
  from assms(1) have k: "map fst df' = map fst df"
    and l: "map (\<lambda>c. length (snd c)) df' = map (\<lambda>c. length (snd c)) df"
    by (simp_all add: same_frame_def)
  have z: "map (\<lambda>c. (fst c, length (snd c))) d = zip (map fst d) (map (\<lambda>c. length (snd c)) d)"
    for d :: dataframe
    by (induction d) simp_all
  have p: "list_all (\<lambda>c. fst c = ''time'' \<or> snd c \<noteq> []) d
             = list_all (\<lambda>p. fst p = ''time'' \<or> snd p \<noteq> 0) (map (\<lambda>c. (fst c, length (snd c))) d)"
    for d :: dataframe
    by (simp add: list_all_iff)
  have "fst ` set df' = fst ` set df" using k by (metis list.set_map)
  moreover have "list_all (\<lambda>c. fst c = ''time'' \<or> snd c \<noteq> []) df'"
    using assms(2) unfolding cleanable_def p z k l by simp
  ultimately show ?thesis using assms(2) k by (simp add: cleanable_def)
qed

lemma column_of_key:
  assumes "f \<in> fst ` set df"
  shows "\<exists>x. map_of df f = Some x"
  using assms by (metis map_of_eq_None_iff not_Some_eq)

lemma median_body_form:
  "median_body f df = (if f = ''time'' then Inr df else column_op median_filter f df)"
  by (simp add: median_body_def)

lemma clip_body_form:
  "clip_body b df =
     (if False then Inr df else column_op (clip (fst (snd b)) (snd (snd b))) (fst b) df)"
  by (cases b) (simp add: clip_body_def)

lemma median_filtering_returns:
  assumes "distinct (map fst df)"
  shows "\<exists>df'. median_filtering df = Inr df'"
proof -
  have d: "distinct (map (\<lambda>f. f) (map fst df))" using assms by simp
  have pre: "\<forall>f\<in>set (map fst df). \<not> f = ''time'' \<longrightarrow>
               (\<exists>x y. map_of df f = Some x \<and> median_filter x = Inr y)"
    using column_of_key [of _ df] by (auto simp: median_filter_def)
  from for_each_column_ops [of median_body "\<lambda>f. f = ''time''" "\<lambda>f. median_filter" "\<lambda>f. f",
      OF median_body_form d pre]
  show ?thesis unfolding median_filtering_def by (elim exE conjE) (rule exI)
qed

lemma clip_stage_returns:
  assumes "list_all (\<lambda>b. fst b \<in> fst ` set df) ATTR_BOUNDS"
  shows "\<exists>df'. clip_stage df = Inr df'"
proof -
  have pre: "\<forall>b\<in>set ATTR_BOUNDS. \<not> False \<longrightarrow>
               (\<exists>x y. map_of df (fst b) = Some x \<and> clip (fst (snd b)) (snd (snd b)) x = Inr y)"
    using assms column_of_key [of _ df] by (auto simp: clip_def list_all_iff)
  from for_each_column_ops [of clip_body "\<lambda>b. False" "\<lambda>b. clip (fst (snd b)) (snd (snd b))" fst,
      OF clip_body_form distinct_ATTR_BOUNDS pre]
  show ?thesis unfolding clip_stage_def by (elim exE conjE) (rule exI)
qed

lemma sigma_stage_returns:
  assumes "distinct (map fst df)" and "list_all (\<lambda>c. fst c = ''time'' \<or> snd c \<noteq> []) df"
  shows "\<exists>df'. sigma_stage df = Inr df'"
proof -
  have d: "distinct (map (\<lambda>f. f) (map fst df))" using assms(1) by simp
  have pre: "\<forall>f\<in>set (map fst df). \<not> f = ''time'' \<longrightarrow>
               (\<exists>x y. map_of df f = Some x \<and> sigma_repair x = Inr y)"
  proof (intro ballI impI)
    fix f assume "f \<in> set (map fst df)" "\<not> f = ''time''"
    then obtain c where c: "c \<in> set df" "fst c = f" by auto
    with \<open>\<not> f = ''time''\<close> assms(2) have "snd c \<noteq> []" by (auto simp: list_all_iff)
    moreover have "map_of df (fst c) = Some (snd c)"
      using assms(1) c(1) by (intro map_of_is_SomeI) simp_all
    ultimately show "\<exists>x y. map_of df f = Some x \<and> sigma_repair x = Inr y"
      using sigma_repair_effect [of "snd c"] c(2) by auto
  qed
  from for_each_column_ops [of sigma_body "\<lambda>f. f = ''time''" "\<lambda>f. sigma_repair" "\<lambda>f. f",
      OF sigma_body_form d pre]
  show ?thesis unfolding sigma_stage_def by (elim exE conjE) (rule exI)
qed

lemma stuck_stage_returns:
  assumes "list_all (\<lambda>b. fst b \<in> fst ` set df) ATTR_BOUNDS"
  shows "\<exists>df'. stuck_stage df = Inr df'"
proof -
  have pre: "\<forall>b\<in>set ATTR_BOUNDS. \<not> fst b = ''shortwave'' \<longrightarrow>
               (\<exists>x y. map_of df (fst b) = Some x \<and> stuck_repair (fst (snd b)) (snd (snd b)) x = Inr y)"
    using assms column_of_key [of _ df] by (auto simp: stuck_repair_def Let_def list_all_iff)
  from for_each_column_ops [of stuck_body "\<lambda>b. fst b = ''shortwave''"
      "\<lambda>b. stuck_repair (fst (snd b)) (snd (snd b))" fst, OF stuck_body_form distinct_ATTR_BOUNDS pre]
  show ?thesis unfolding stuck_stage_def by (elim exE conjE) (rule exI)
qed

lemma remove_outliers_returns:
  assumes "cleanable df"
  shows "\<exists>df'. remove_outliers df = Inr df'"
proof -
  from assms median_filtering_returns [of df]
  obtain df1 where s1: "median_filtering df = Inr df1" by (auto simp: cleanable_def)
  have c1: "cleanable df1" using median_filtering_frame [OF s1] assms by (rule cleanable_same_frame)
  from c1 clip_stage_returns [of df1]
  obtain df2 where s2: "clip_stage df1 = Inr df2" by (auto simp: cleanable_def)
  have c2: "cleanable df2" using clip_stage_frame [OF s2] c1 by (rule cleanable_same_frame)
  from c2 sigma_stage_returns [of df2]
  obtain df3 where s3: "sigma_stage df2 = Inr df3" by (auto simp: cleanable_def)
  have c3: "cleanable df3" using sigma_stage_frame [OF s3] c2 by (rule cleanable_same_frame)
  from c3 stuck_stage_returns [of df3]
  obtain df4 where s4: "stuck_stage df3 = Inr df4" by (auto simp: cleanable_def)
  have c4: "cleanable df4" using stuck_stage_frame [OF s4] c3 by (rule cleanable_same_frame)
  from c4 median_filtering_returns [of df4]
  obtain df5 where s5: "median_filtering df4 = Inr df5" by (auto simp: cleanable_def)
  show ?thesis by (simp add: remove_outliers_def s1 s2 s3 s4 s5)
qed

text \<open>
  C10. Whenever \<open>remove_outliers\<close> returns, the frame has the same column names in the
  same order, the same column \<open>time\<close>, and in every column the same number of rows: the
  stages only replace cells of feature columns. It returns on every frame with
  distinct column names that has the features of \<open>ATTR_BOUNDS\<close> and no empty feature
  column.
\<close>

theorem remove_outliers_preserves_frame:
  "(remove_outliers df = Inr df' \<longrightarrow>
      map fst df' = map fst df \<and> map_of df' ''time'' = map_of df ''time''
      \<and> map (\<lambda>c. length (snd c)) df' = map (\<lambda>c. length (snd c)) df)
   \<and> (distinct (map fst df) \<and> (\<forall>b\<in>set ATTR_BOUNDS. fst b \<in> fst ` set df)
        \<and> (\<forall>c\<in>set df. fst c \<noteq> ''time'' \<longrightarrow> snd c \<noteq> []) \<longrightarrow>
      (\<exists>df''. remove_outliers df = Inr df''))"
proof (rule conjI; rule impI)
  assume "remove_outliers df = Inr df'"
  from remove_outliers_frame [OF this]
  show "map fst df' = map fst df \<and> map_of df' ''time'' = map_of df ''time''
      \<and> map (\<lambda>c. length (snd c)) df' = map (\<lambda>c. length (snd c)) df"
    by (simp add: same_frame_def)
next
  assume "distinct (map fst df) \<and> (\<forall>b\<in>set ATTR_BOUNDS. fst b \<in> fst ` set df)
        \<and> (\<forall>c\<in>set df. fst c \<noteq> ''time'' \<longrightarrow> snd c \<noteq> [])"
  then have "cleanable df" by (auto simp: cleanable_def list_all_iff)
  then show "\<exists>df''. remove_outliers df = Inr df''" by (rule remove_outliers_returns)
qed

theorem remove_outliers_preserves_frame_witness:
  "\<exists>df'. remove_outliers
       [(''time'', [Some 0, Some 1, Some 2]),
        (''shortwave'', [Some 0, Some 0, Some 1300]),
        (''air temp'', [Some (- 20), Some 10, Some 40]),
        (''atmospheric pressure'', [Some 82000, Some 82000, Some 82000]),
        (''relative humidity'', [Some (1 / 2), Some (1 / 2), Some (1 / 2)]),
        (''longwave'', [Some 300, Some 300, Some 300]),
        (''wind speed'', [Some 3, Some 3, Some 3]),
        (''wind direction'', [Some 90, Some 90, Some 90])] = Inr df'
     \<and> map fst df' = [''time'', ''shortwave'', ''air temp'', ''atmospheric pressure'',
          ''relative humidity'', ''longwave'', ''wind speed'', ''wind direction'']
     \<and> map_of df' ''time'' = Some [Some 0, Some 1, Some 2]
     \<and> map (\<lambda>c. length (snd c)) df' = [3, 3, 3, 3, 3, 3, 3, 3]"
proof -
  let ?df = "[(''time'', [Some 0, Some 1, Some 2]),
        (''shortwave'', [Some 0, Some 0, Some 1300]),
        (''air temp'', [Some (- 20), Some 10, Some 40]),
        (''atmospheric pressure'', [Some 82000, Some 82000, Some 82000]),
        (''relative humidity'', [Some (1 / 2), Some (1 / 2), Some (1 / 2)]),
        (''longwave'', [Some 300, Some 300, Some 300]),
        (''wind speed'', [Some 3, Some 3, Some 3]),
        (''wind direction'', [Some 90, Some 90, Some 90])] :: dataframe"
  have h: "distinct (map fst ?df) \<and> (\<forall>b\<in>set ATTR_BOUNDS. fst b \<in> fst ` set ?df)
        \<and> (\<forall>c\<in>set ?df. fst c \<noteq> ''time'' \<longrightarrow> snd c \<noteq> [])"
    by (simp add: ATTR_BOUNDS_def)
  from remove_outliers_preserves_frame [of ?df, THEN conjunct2, THEN mp, OF h]
  obtain df' where r: "remove_outliers ?df = Inr df'" by (elim exE)
  from remove_outliers_preserves_frame [of ?df df', THEN conjunct1, THEN mp, OF r]
  have "map fst df' = map fst ?df" "map_of df' ''time'' = map_of ?df ''time''"
    "map (\<lambda>c. length (snd c)) df' = map (\<lambda>c. length (snd c)) ?df"
    by simp_all
  with r show ?thesis by (intro exI [of _ df']) simp
qed

subsection \<open>Values on the edge of the band\<close>

lemma nth_rolling:
  "i < length x \<Longrightarrow>
     rolling w f x ! i = (let vs = window w x i in if 1 \<le> length vs then f vs else None)"
  by (simp add: rolling_def)

text \<open>
  The two comparisons of the third stage are strict: a value that lies exactly on a bound
  of the band is not outside the band, and is replaced by the rolling mean as well. Ten
  values \<open>1\<close> and \<open>-1\<close> and a last value 33 have the mean 3 and the standard deviation 10
  at the last position, so the upper bound there is 33.
\<close>

lemma sigma_repair_band_edge:
  "band_hi [Some 1, Some (- 1), Some 1, Some (- 1), Some 1, Some (- 1), Some 1, Some (- 1),
            Some 1, Some (- 1), Some 33] 10 = Some 33
   \<and> (\<exists>y. sigma_repair [Some 1, Some (- 1), Some 1, Some (- 1), Some 1, Some (- 1), Some 1,
            Some (- 1), Some 1, Some (- 1), Some 33] = Inr y \<and> y ! 10 = Some 3)"
proof -
  let ?x = "[Some 1, Some (- 1), Some 1, Some (- 1), Some 1, Some (- 1), Some 1, Some (- 1),
            Some 1, Some (- 1), Some 33] :: series"
  have w: "window 100 ?x 10 = [1, - 1, 1, - 1, 1, - 1, 1, - 1, 1, - 1, 33]"
    by (simp add: window_short map_filter_simps)
  have s: "sqrt 100 = 10" using real_sqrt_abs [of 10] by simp
  have m: "sigma_mean ?x 10 = Some 3"
    by (simp add: sigma_mean_def nth_rolling w roll_mean_def mean_def)
  have d: "sigma_std ?x 10 = Some 10"
    by (simp add: sigma_std_def nth_rolling w roll_std_def mean_def power2_eq_square s)
  have h: "band_hi ?x 10 = Some 33" and l: "band_lo ?x 10 = Some (- 27)"
    by (simp_all add: band_hi_def band_lo_def m d cell_binop_def)
  have "?x \<noteq> []" by simp
  from sigma_repair_effect [OF this]
  obtain y where y: "sigma_repair ?x = Inr y"
    and yi: "\<forall>i<length ?x. y ! i =
                 (if cell_lt (band_lo ?x i) (?x ! i) \<and> cell_lt (?x ! i) (band_hi ?x i) then ?x ! i
                  else sigma_mean ?x i)"
    by (elim exE conjE)
  from yi [rule_format, of 10] have "y ! 10 = Some 3"
    by (simp add: h l m cell_lt_def)
  with h y show ?thesis by (intro conjI exI [of _ y])
qed

end
